theory Spec2Isabelle
  imports Complex_Main "HOL-Library.Word" "HOL-Library.Log_Nat"
begin

unbundle bit_operations_syntax

section \<open>auto-logo-cropper: a model of \<open>auto_logo_cropper/cli.py\<close>\<close>

text \<open>
  The model follows \<open>cli.py\<close> function by function. Python exceptions are values of
  \<open>error\<close>; a function that can raise returns \<open>error + 'a\<close> with \<open>Inl\<close> for the
  exception. Python's unbounded integers are \<open>int\<close>, its strings are \<open>string\<close>
  (characters read as code points below 256, which covers every character the parsers
  of this program accept), its floats are the rationals that IEEE 754 binary64 can
  represent, with the rounding written out.
\<close>

subsection \<open>Exceptions\<close>

datatype error =
    ValueError
  | AssertionError
  | ArgumentTypeError
  | ZeroDivisionError
  | OverflowError
  | IndexError
  | OSError
  | TypeError

subsection \<open>Python's \<open>int(s, base)\<close> and \<open>str.split\<close>\<close>

text \<open>
  \<open>int(s, base)\<close> strips white space on both sides, reads an optional sign, for base 16
  an optional \<open>0x\<close> prefix, and then digits of the base, where one underscore may stand
  between two digits (and right after the prefix). Anything else raises \<open>ValueError\<close>.
  The white space that \<open>int\<close> strips is the tab, the line feed, the vertical tab, the
  form feed, the carriage return and the space, and the two characters above 127 that
  count as space, the next line (133) and the no-break space (160), which \<open>int\<close> turns
  into spaces first. The separators 28 to 31, which \<open>str.strip\<close> would remove, are not
  stripped: \<open>int\<close> of the character 31 followed by \<open>5\<close> raises \<open>ValueError\<close>.
  Not modelled: the limit on the number of digits (4300 by default) of recent
  interpreters, and decimal digits of scripts beyond Latin-1.
\<close>

definition is_space :: "char \<Rightarrow> bool" where
  "is_space c =
     (let n = (of_char c :: nat)
      in (9 \<le> n \<and> n \<le> 13) \<or> n = 32 \<or> n = 133 \<or> n = 160)"

definition strip :: "string \<Rightarrow> string" where
  "strip s = rev (dropWhile is_space (rev (dropWhile is_space s)))"

definition digit_of :: "char \<Rightarrow> nat option" where
  "digit_of c =
     (let n = (of_char c :: nat)
      in if 48 \<le> n \<and> n \<le> 57 then Some (n - 48)
         else if 97 \<le> n \<and> n \<le> 122 then Some (n - 87)
         else if 65 \<le> n \<and> n \<le> 90 then Some (n - 55)
         else None)"

definition is_digit :: "nat \<Rightarrow> char \<Rightarrow> bool" where
  "is_digit base c = (case digit_of c of None \<Rightarrow> False | Some d \<Rightarrow> d < base)"

text \<open>
  \<open>digits_ok base prev s\<close>: the rest \<open>s\<close> of a digit string is well formed, where
  \<open>prev\<close> says whether the character before it was a digit (an underscore needs a digit
  on both sides).
\<close>

fun digits_ok :: "nat \<Rightarrow> bool \<Rightarrow> string \<Rightarrow> bool" where
  "digits_ok base prev [] = prev"
| "digits_ok base prev (c # cs) =
     (if c = CHR ''_'' then prev \<and> digits_ok base False cs
      else is_digit base c \<and> digits_ok base True cs)"

definition digits_value :: "nat \<Rightarrow> string \<Rightarrow> int" where
  "digits_value base s =
     foldl (\<lambda>acc c. acc * int base + int (case_option 0 id (digit_of c))) 0
       (filter (\<lambda>c. c \<noteq> CHR ''_'') s)"

definition py_int :: "nat \<Rightarrow> string \<Rightarrow> error + int" where
  "py_int base s =
     (let t = strip s;
          neg = (t \<noteq> [] \<and> hd t = CHR ''-'');
          u = (if t \<noteq> [] \<and> (hd t = CHR ''-'' \<or> hd t = CHR ''+'') then tl t else t);
          pre = (base = 16 \<and> (take 2 u = ''0x'' \<or> take 2 u = ''0X''));
          v = (if pre then drop 2 u else u);
          w = (if pre \<and> take 1 v = ''_'' then drop 1 v else v)
      in if w \<noteq> [] \<and> digits_ok base True w \<and> hd w \<noteq> CHR ''_''
         then Inr ((if neg then - 1 else 1) * digits_value base w)
         else Inl ValueError)"

text \<open>\<open>s.split(c)\<close>: the fields between the separators, always at least one field.\<close>

fun split :: "char \<Rightarrow> string \<Rightarrow> string list" where
  "split c [] = [[]]"
| "split c (x # xs) =
     (if x = c then [] # split c xs
      else (x # hd (split c xs)) # tl (split c xs))"

text \<open>A list comprehension whose element expression can raise: the first exception wins.\<close>

fun collect :: "('a \<Rightarrow> error + 'b) \<Rightarrow> 'a list \<Rightarrow> error + 'b list" where
  "collect f [] = Inr []"
| "collect f (x # xs) =
     (case f x of
        Inl e \<Rightarrow> Inl e
      | Inr y \<Rightarrow> (case collect f xs of Inl e \<Rightarrow> Inl e | Inr ys \<Rightarrow> Inr (y # ys)))"

subsection \<open>\<open>parse_margin\<close>\<close>

text \<open>
  \<^verbatim>\<open>
  def parse_margin(margin):
      a, b, c, d, *ignore = [abs(int(n)) for n in margin.split(",")] + [None] * 4
      if d:   return [a, b, c, d]
      elif c: return [a, b, c, b]
      elif b: return [a, b, a, b]
      elif a: return [a, a, a, a]
      else:   return [0, 0, 0, 0]
  \<close>
  The padded list holds \<open>Some v\<close> for a parsed value and \<open>None\<close> for Python's \<open>None\<close>.
  \<open>truthy\<close> is Python's truth value of such an entry: \<open>None\<close> and \<open>0\<close> are false.
  In each branch the entries that are returned stand before a truthy one, so they are
  parsed values (\<open>broadcast_values\<close> below).
\<close>

definition truthy :: "int option \<Rightarrow> bool" where
  "truthy v = (case v of None \<Rightarrow> False | Some n \<Rightarrow> n \<noteq> 0)"

definition broadcast :: "int option list \<Rightarrow> error + int list" where
  "broadcast padded =
     (case padded of
        a # b # c # d # ignore \<Rightarrow>
          Inr (if truthy d then [the a, the b, the c, the d]
               else if truthy c then [the a, the b, the c, the b]
               else if truthy b then [the a, the b, the a, the b]
               else if truthy a then [the a, the a, the a, the a]
               else [0, 0, 0, 0])
      | _ \<Rightarrow> Inl ValueError)"

definition parse_margin :: "string \<Rightarrow> error + int list" where
  "parse_margin margin =
     (case collect (\<lambda>n. map_sum id abs (py_int 10 n)) (split CHR '','' margin) of
        Inl e \<Rightarrow> Inl e
      | Inr vs \<Rightarrow> broadcast (map Some vs @ replicate 4 None))"

text \<open>\<open>c.join(fields)\<close>, used to state what \<open>split\<close> does to a string of fields.\<close>

fun join :: "char \<Rightarrow> string list \<Rightarrow> string" where
  "join c [] = []"
| "join c [f] = f"
| "join c (f # g # fs) = f @ c # join c (g # fs)"

subsection \<open>\<open>is_hex\<close> and \<open>hex2rgb\<close>\<close>

text \<open>
  \<^verbatim>\<open>
  def is_hex(value):
      return re.match("^[A-Fa-f0-9]{6}$", value)
  \<close>
  \<open>re.match\<close> anchors at the start; \<open>$\<close> matches at the end of the string and also
  just before a newline that ends the string, so six hexadecimal digits followed by one
  newline match as well.
\<close>

definition is_hex_char :: "char \<Rightarrow> bool" where
  "is_hex_char c =
     (let n = (of_char c :: nat)
      in (65 \<le> n \<and> n \<le> 70) \<or> (97 \<le> n \<and> n \<le> 102) \<or> (48 \<le> n \<and> n \<le> 57))"

definition is_hex :: "string \<Rightarrow> bool" where
  "is_hex s =
     (length (take 6 s) = 6 \<and> list_all is_hex_char (take 6 s)
      \<and> (drop 6 s = [] \<or> drop 6 s = [CHR 0x0A]))"

text \<open>The specification's words for a colour option: exactly six hexadecimal digits.\<close>

definition six_hex_digits :: "string \<Rightarrow> bool" where
  "six_hex_digits s = (length s = 6 \<and> list_all is_hex_char s)"

text \<open>
  \<^verbatim>\<open>
  def hex2rgb(hex):
      assert len(hex) == 6
      return [int(hex[o : o + 2], 16) for o in [0, 2, 4]]
  \<close>
  Assertions are modelled as they run by default (without the interpreter's \<open>-O\<close>).
\<close>

definition hex2rgb :: "string \<Rightarrow> error + int list" where
  "hex2rgb hex =
     (if length hex \<noteq> 6 then Inl AssertionError
      else collect (\<lambda>i. py_int 16 (take 2 (drop i hex))) [0, 2, 4])"

subsection \<open>\<open>parse_args\<close>\<close>

text \<open>
  \<open>cli\<close> is the namespace that \<open>argparse\<close> returns: the options as the command line
  gave them (\<open>--width\<close> and \<open>--height\<close> already integers, \<open>--margin\<close> with its default
  \<open>"0"\<close>, \<open>--output\<close> with its default \<open>"cropped"\<close>, \<open>--color\<close> and
  \<open>--background\<close> absent or strings). What \<open>argparse\<close> itself refuses (no image, a
  missing or non-integer width or height, \<open>--greyscale\<close> together with \<open>--color\<close>)
  ends the process before this code runs and is not part of the model.
\<close>

record cli =
  cli_images :: "string list"
  cli_height :: int
  cli_width :: int
  cli_margin :: string
  cli_background :: "string option"
  cli_output :: string
  cli_verbose :: bool
  cli_debug :: bool
  cli_greyscale :: bool
  cli_color :: "string option"

text \<open>
  \<open>parse_args\<close> overwrites \<open>args.color\<close> and \<open>args.background\<close> with the list of
  channels when the option is a non-empty string; an absent option stays \<open>None\<close> and an
  empty string stays the empty string. \<open>given\<close> is Python's truth value of such a field,
  as \<open>if args.color:\<close> reads it. (\<open>args.output\<close> is the field \<open>output_dir\<close>:
  \<open>output\<close> is a keyword of Isabelle.)
\<close>

datatype colour = Str string | Channels "int list"

definition given :: "colour option \<Rightarrow> bool" where
  "given c = (case c of None \<Rightarrow> False | Some (Str s) \<Rightarrow> s \<noteq> [] | Some (Channels l) \<Rightarrow> l \<noteq> [])"

record args =
  images :: "string list"
  height :: int
  width :: int
  margin :: "int list"
  background :: "colour option"
  output_dir :: string
  verbose :: bool
  debug :: bool
  greyscale :: bool
  color :: "colour option"

text \<open>
  \<^verbatim>\<open>
  if args.color:
      if is_hex(args.color):
          args.color = hex2rgb(args.color)
      else:
          raise argparse.ArgumentTypeError(...)
  \<close>
\<close>

definition parse_colour :: "string option \<Rightarrow> error + colour option" where
  "parse_colour opt =
     (case opt of
        None \<Rightarrow> Inr None
      | Some s \<Rightarrow>
          if s \<noteq> [] then
            (if is_hex s then map_sum id (\<lambda>l. Some (Channels l)) (hex2rgb s)
             else Inl ArgumentTypeError)
          else Inr (Some (Str s)))"

text \<open>
  \<^verbatim>\<open>
  args.width = abs(args.width)
  args.height = abs(args.height)
  args.margin = parse_margin(args.margin)
  assert (args.width > args.margin[1] + args.margin[3]), "Width should be ..."
  assert (args.height > args.margin[0] + args.margin[2]), "Height should be ..."
  return args
  \<close>
  The checks run in the order of the source: colour, background, margin, width, height.
  A margin list is indexed at 0 to 3; \<open>parse_margin\<close> returns four entries
  (\<open>broadcast_values\<close>), and the branch for another length is Python's \<open>IndexError\<close>.
\<close>

definition parse_args :: "cli \<Rightarrow> error + args" where
  "parse_args c =
     (case parse_colour (cli_color c) of
        Inl e \<Rightarrow> Inl e
      | Inr col \<Rightarrow>
     (case parse_colour (cli_background c) of
        Inl e \<Rightarrow> Inl e
      | Inr bg \<Rightarrow>
     (let w = \<bar>cli_width c\<bar>; h = \<bar>cli_height c\<bar>
      in case parse_margin (cli_margin c) of
           Inl e \<Rightarrow> Inl e
         | Inr m \<Rightarrow>
        (case m of
           [m0, m1, m2, m3] \<Rightarrow>
             if \<not> w > m1 + m3 then Inl AssertionError
             else if \<not> h > m0 + m2 then Inl AssertionError
             else Inr \<lparr>images = cli_images c, height = h, width = w, margin = m,
                       background = bg, output_dir = cli_output c, verbose = cli_verbose c,
                       debug = cli_debug c, greyscale = cli_greyscale c, color = col\<rparr>
         | _ \<Rightarrow> Inl IndexError))))"

subsection \<open>Python floats\<close>

text \<open>
  A Python float is an IEEE 754 binary64 number. The finite ones are rationals
  \<open>m * 2 ^ e\<close> with \<open>\<bar>m\<bar> < 2 ^ 53\<close> and \<open>- 1074 \<le> e \<le> 971\<close>; an operation returns
  the representable number nearest to the exact result, a tie going to the even \<open>m\<close>.
  \<open>round_double\<close> is that rounding with the exponent unbounded above: a result of
  magnitude \<open>2 ^ 1024\<close> or more is the overflow that the callers test for.
\<close>

definition pow2 :: "int \<Rightarrow> rat" where
  "pow2 e = (if 0 \<le> e then 2 ^ nat e else 1 / 2 ^ nat (- e))"

text \<open>\<open>ilog2 x\<close> for \<open>x > 0\<close>: the \<open>e\<close> with \<open>2 ^ e \<le> x < 2 ^ (e + 1)\<close>.\<close>

definition ilog2 :: "rat \<Rightarrow> int" where
  "ilog2 x =
     (let (a, b) = quotient_of x; d = bitlen a - bitlen b
      in if pow2 d \<le> x then d else d - 1)"

definition round_half_even :: "rat \<Rightarrow> int" where
  "round_half_even q =
     (let f = \<lfloor>q\<rfloor>; r = q - of_int f
      in if r < 1 / 2 then f
         else if 1 / 2 < r then f + 1
         else if even f then f else f + 1)"

definition ulp :: "rat \<Rightarrow> rat" where
  "ulp x = pow2 (max (ilog2 \<bar>x\<bar>) (- 1022) - 52)"

definition round_double :: "rat \<Rightarrow> rat" where
  "round_double x =
     (if x = 0 then 0
      else sgn x * of_int (round_half_even (\<bar>x\<bar> / ulp x)) * ulp x)"

definition overflows :: "rat \<Rightarrow> bool" where
  "overflows y = (2 ^ 1024 \<le> \<bar>y\<bar>)"

text \<open>
  \<open>a / b\<close> on two Python integers: the correctly rounded quotient;
  \<open>ZeroDivisionError\<close> for \<open>b = 0\<close>, \<open>OverflowError\<close> when the quotient is too large.
\<close>

definition true_div :: "int \<Rightarrow> int \<Rightarrow> error + rat" where
  "true_div a b =
     (if b = 0 then Inl ZeroDivisionError
      else let y = round_double (of_int a / of_int b)
           in if overflows y then Inl OverflowError else Inr y)"

text \<open>The conversion of an integer operand to float, as \<open>float * int\<close> does it.\<close>

definition to_float :: "int \<Rightarrow> error + rat" where
  "to_float n =
     (let y = round_double (of_int n)
      in if overflows y then Inl OverflowError else Inr y)"

text \<open>
  The product of two floats does not raise: on overflow it is an infinity. The only use
  of a product here is \<open>int(...)\<close>, which raises \<open>OverflowError\<close> for either infinity,
  so the model keeps one infinite value, \<open>None\<close>.
\<close>

definition float_mul :: "rat \<Rightarrow> rat \<Rightarrow> rat option" where
  "float_mul x y =
     (let z = round_double (x * y) in if overflows z then None else Some z)"

text \<open>\<open>int(x)\<close> on a float truncates towards zero.\<close>

definition int_of_float :: "rat option \<Rightarrow> error + int" where
  "int_of_float x =
     (case x of
        None \<Rightarrow> Inl OverflowError
      | Some y \<Rightarrow> Inr (if 0 \<le> y then \<lfloor>y\<rfloor> else \<lceil>y\<rceil>))"

subsection \<open>\<open>resize_to_fit_bounding_box\<close>: the new size\<close>

text \<open>
  \<^verbatim>\<open>
  def resize_to_fit_bounding_box(img, bb_width, bb_height):
      img_width, img_height = img.size
      bb_ratio = bb_width / bb_height
      img_ratio = img_width / img_height
      if bb_ratio > img_ratio:
          new_img_width = img_width / img_height * bb_height
          new_img_height = bb_height
      else:
          new_img_width = bb_width
          new_img_height = img_height / img_width * bb_width
      new_img_width = int(new_img_width)
      new_img_height = int(new_img_height)
      return (img.resize((new_img_width, new_img_height), Image.LANCZOS),
              new_img_width, new_img_height)
  \<close>
  \<open>new_size\<close> is the arithmetic of the function: the pair
  \<open>(new_img_width, new_img_height)\<close> that is passed to \<open>img.resize\<close> and returned.
  In each branch one of the two is the integer box dimension itself, on which \<open>int\<close>
  is the identity; the other is a float product.
\<close>

definition scaled :: "int \<Rightarrow> int \<Rightarrow> int \<Rightarrow> error + int" where
  "scaled a b c =
     (case true_div a b of
        Inl e \<Rightarrow> Inl e
      | Inr r \<Rightarrow>
          (case to_float c of
             Inl e \<Rightarrow> Inl e
           | Inr f \<Rightarrow> int_of_float (float_mul r f)))"

definition new_size :: "int \<times> int \<Rightarrow> int \<Rightarrow> int \<Rightarrow> error + int \<times> int" where
  "new_size sz bb_width bb_height =
     (let (img_width, img_height) = sz
      in case true_div bb_width bb_height of
           Inl e \<Rightarrow> Inl e
         | Inr bb_ratio \<Rightarrow>
        (case true_div img_width img_height of
           Inl e \<Rightarrow> Inl e
         | Inr img_ratio \<Rightarrow>
             if bb_ratio > img_ratio
             then map_sum id (\<lambda>w. (w, bb_height)) (scaled img_width img_height bb_height)
             else map_sum id (\<lambda>h. (bb_width, h)) (scaled img_height img_width bb_width)))"

subsection \<open>Images\<close>

text \<open>
  An image is its size \<open>(width, height)\<close> and its pixels, addressed by \<open>(x, y)\<close> with
  \<open>x\<close> below the width and \<open>y\<close> below the height. The imaging library (Pillow) is not
  part of the repository. Its operations on single pixels and on boxes are modelled from
  the specification's description of them; its resampling, pasting, compositing, mode
  conversion and file formats are parameters of the model (\<open>platform\<close> below).
\<close>

type_synonym byte = "8 word"

record rgba =
  red :: byte
  green :: byte
  blue :: byte
  alpha :: byte

type_synonym rgb = "byte \<times> byte \<times> byte"

record 'p image =
  img_size :: "nat \<times> nat"
  pixels :: "nat \<times> nat \<Rightarrow> 'p"

definition getpixel :: "'p image \<Rightarrow> nat \<times> nat \<Rightarrow> error + 'p" where
  "getpixel img xy =
     (if fst xy < fst (img_size img) \<and> snd xy < snd (img_size img)
      then Inr (pixels img xy) else Inl IndexError)"

definition new_image :: "nat \<times> nat \<Rightarrow> 'p \<Rightarrow> 'p image" where
  "new_image sz c = \<lparr>img_size = sz, pixels = (\<lambda>xy. c)\<rparr>"

definition point :: "('p \<Rightarrow> 'q) \<Rightarrow> 'p image \<Rightarrow> 'q image" where
  "point f img = \<lparr>img_size = img_size img, pixels = (\<lambda>xy. f (pixels img xy))\<rparr>"

text \<open>A box is \<open>(left, top, right, bottom)\<close>; \<open>None\<close> is Python's \<open>None\<close>.\<close>

type_synonym box = "int \<times> int \<times> int \<times> int"

text \<open>
  Modelled from the spec: the library's \<open>getbbox\<close>, which is not in the repository.
  The specification describes it as "the smallest box containing every pixel with
  alpha \<open>\<noteq>\<close> 0" (for the difference image: "the smallest box enclosing all
  non-zero-difference pixels"), with an "empty/undefined result" when there is no such
  pixel, and a bounding box has \<open>right > left\<close> and \<open>bottom > top\<close>. So the box of a
  single pixel \<open>(x, y)\<close> is \<open>(x, y, x + 1, y + 1)\<close>: \<open>left\<close> and \<open>top\<close> are the first
  column and row with content, \<open>right\<close> and \<open>bottom\<close> are one past the last, which is
  also how \<open>crop\<close> reads a box. \<open>content\<close> says which pixels count.
\<close>

definition getbbox :: "('p \<Rightarrow> bool) \<Rightarrow> 'p image \<Rightarrow> box option" where
  "getbbox content img =
     (let w = fst (img_size img); h = snd (img_size img);
          cols = filter (\<lambda>x. list_ex (\<lambda>y. content (pixels img (x, y))) [0..<h]) [0..<w];
          rws = filter (\<lambda>y. list_ex (\<lambda>x. content (pixels img (x, y))) [0..<w]) [0..<h]
      in if cols = [] \<or> rws = [] then None
         else Some (int (hd cols), int (hd rws), int (last cols) + 1, int (last rws) + 1))"

text \<open>
  Modelled from the spec: the library's \<open>crop\<close>. \<open>image.crop(None)\<close> is a copy of the
  image; \<open>image.crop(box)\<close> is the region of the box, of size
  \<open>(right - left, bottom - top)\<close>.
\<close>

definition crop :: "'p image \<Rightarrow> box option \<Rightarrow> 'p image" where
  "crop img bx =
     (case bx of
        None \<Rightarrow> img
      | Some (l, t, r, b) \<Rightarrow>
          \<lparr>img_size = (nat (r - l), nat (b - t)),
           pixels = (\<lambda>(x, y). pixels img (nat (int x + l), nat (int y + t)))\<rparr>)"

text \<open>
  Modelled from the spec: "quantize the image to 1 bit per channel (posterize to 2
  levels) after dropping alpha", "a flat-color image of the same size using the
  quantized probe-pixel color", "the pixel-wise difference".
\<close>

definition convert_rgb :: "rgba image \<Rightarrow> rgb image" where
  "convert_rgb = point (\<lambda>p. (red p, green p, blue p))"

definition posterize1 :: "rgb image \<Rightarrow> rgb image" where
  "posterize1 = point (\<lambda>(r, g, b). (r AND 0x80, g AND 0x80, b AND 0x80))"

definition absdiff :: "byte \<Rightarrow> byte \<Rightarrow> byte" where
  "absdiff a b = (if a < b then b - a else a - b)"

definition difference :: "rgb image \<Rightarrow> rgb image \<Rightarrow> rgb image" where
  "difference im1 im2 =
     \<lparr>img_size = img_size im1,
      pixels = (\<lambda>xy. case (pixels im1 xy, pixels im2 xy) of
                  ((r1, g1, b1), (r2, g2, b2)) \<Rightarrow> (absdiff r1 r2, absdiff g1 g2, absdiff b1 b2))\<rparr>"

subsection \<open>The bounding box of the logo (\<open>main\<close>, lines 142 to 151)\<close>

text \<open>
  \<^verbatim>\<open>
  if image.getpixel((3, 3))[3] == 0:
      bounding_box = image.getbbox()
  else:
      posterized = ImageOps.posterize(image.convert("RGB"), 1)
      background = Image.new("RGBA", image.size, posterized.getpixel((3, 3))).convert("RGB")
      bounding_box = ImageChops.difference(posterized, background).getbbox()
  \<close>
  \<open>getpixel\<close> raises \<open>IndexError\<close> on an image narrower or lower than 4 pixels.
\<close>

definition detect_bbox :: "rgba image \<Rightarrow> error + box option" where
  "detect_bbox img =
     (case getpixel img (3, 3) of
        Inl e \<Rightarrow> Inl e
      | Inr probe \<Rightarrow>
          if alpha probe = 0 then Inr (getbbox (\<lambda>p. alpha p \<noteq> 0) img)
          else
            (let posterized = posterize1 (convert_rgb img)
             in case getpixel posterized (3, 3) of
                  Inl e \<Rightarrow> Inl e
                | Inr c \<Rightarrow>
                    Inr (getbbox (\<lambda>p. p \<noteq> (0, 0, 0))
                          (difference posterized (new_image (img_size img) c)))))"

subsection \<open>Recolouring (\<open>main\<close>, lines 166 to 173)\<close>

text \<open>
  \<^verbatim>\<open>
  if args.color:
      r, g, b, a = resized.split()
      r = r.point(lambda v: args.color[0])
      g = g.point(lambda v: args.color[1])
      b = b.point(lambda v: args.color[2])
      resized = Image.merge("RGBA", (r, g, b, a))
  \<close>
  \<open>split\<close> gives the four bands, \<open>point\<close> maps a band through a function of the old
  value, \<open>merge\<close> puts four bands together. A value stored in a band is kept within
  0 to 255 (\<open>clip8\<close>). Indexing a list of fewer than three channels is \<open>IndexError\<close>;
  a non-empty string in \<open>args.color\<close> (which \<open>parse_args\<close> never leaves there) would
  put characters in the bands, a \<open>TypeError\<close>.
\<close>

definition clip8 :: "int \<Rightarrow> byte" where
  "clip8 v = of_int (max 0 (min 255 v))"

definition bands :: "rgba image \<Rightarrow> byte image \<times> byte image \<times> byte image \<times> byte image" where
  "bands img = (point red img, point green img, point blue img, point alpha img)"

definition merge :: "byte image \<times> byte image \<times> byte image \<times> byte image \<Rightarrow> rgba image" where
  "merge bs =
     (case bs of
        (r, g, b, a) \<Rightarrow>
          \<lparr>img_size = img_size r,
           pixels = (\<lambda>xy. \<lparr>red = pixels r xy, green = pixels g xy,
                            blue = pixels b xy, alpha = pixels a xy\<rparr>)\<rparr>)"

definition recolour :: "colour option \<Rightarrow> rgba image \<Rightarrow> error + rgba image" where
  "recolour c resized =
     (if given c then
        (case c of
           Some (Channels (c0 # c1 # c2 # rest)) \<Rightarrow>
             (case bands resized of
                (r, g, b, a) \<Rightarrow>
                  Inr (merge (point (\<lambda>v. clip8 c0) r, point (\<lambda>v. clip8 c1) g,
                              point (\<lambda>v. clip8 c2) b, a)))
         | Some (Channels _) \<Rightarrow> Inl IndexError
         | _ \<Rightarrow> Inl TypeError)
      else Inr resized)"

text \<open>
  \<^verbatim>\<open>
  background_color = image.getpixel((3, 3))
  if args.background:
      background_color = tuple(args.background + [255])
  \<close>
\<close>

definition background_color :: "colour option \<Rightarrow> rgba \<Rightarrow> error + rgba" where
  "background_color bg probe =
     (if given bg then
        (case bg of
           Some (Channels [r, g, b]) \<Rightarrow>
             Inr \<lparr>red = clip8 r, green = clip8 g, blue = clip8 b, alpha = 255\<rparr>
         | _ \<Rightarrow> Inl TypeError)
      else Inr probe)"

subsection \<open>Placement (\<open>main\<close>, lines 175 to 183)\<close>

text \<open>
  \<^verbatim>\<open>
  logo_layer.paste(resized,
      (left + (args.width - left - right - rw) // 2,
       top + (args.height - top - bottom - rh) // 2),
      resized)
  \<close>
  Python's \<open>//\<close> on integers is the floor division, as \<open>div\<close> on \<open>int\<close> is.
  The margin \<open>top, right, bottom, left = args.margin\<close> is written
  \<open>(m_top, m_right, m_bottom, m_left)\<close>.
\<close>

definition paste_position :: "args \<Rightarrow> int \<times> int \<times> int \<times> int \<Rightarrow> int \<Rightarrow> int \<Rightarrow> int \<times> int" where
  "paste_position a m rw rh =
     (case m of
        (m_top, m_right, m_bottom, m_left) \<Rightarrow>
          (m_left + (width a - m_left - m_right - rw) div 2,
           m_top + (height a - m_top - m_bottom - rh) div 2))"

text \<open>
  The specification's \<open>center_offset(canvas_dim, content_dim, margin_near, margin_far)\<close>,
  to compare \<open>paste_position\<close> with.
\<close>

definition center_offset :: "int \<Rightarrow> int \<Rightarrow> int \<Rightarrow> int \<Rightarrow> int" where
  "center_offset canvas_dim content_dim margin_near margin_far =
     margin_near + (canvas_dim - margin_near - margin_far - content_dim) div 2"

subsection \<open>What the program takes from outside\<close>

text \<open>
  The final image is RGBA, or luminance and alpha after \<open>final.convert("LA")\<close>.
\<close>

datatype picture = RGBA "rgba image" | LA "(byte \<times> byte) image"

datatype decoded = Raster "rgba image" | Unidentified | Broken

text \<open>
  \<open>platform\<close> collects the operations of the imaging library and of the operating
  system that the program calls and whose results the model does not compute:
  \<^item> \<open>decode\<close>: \<open>Image.open(path).convert("RGBA")\<close> on the bytes of a file; a raster, or
    \<open>UnidentifiedImageError\<close>, or any other exception of the decoder (\<open>Broken\<close>);
  \<^item> \<open>resize\<close>: \<open>img.resize((w, h), Image.LANCZOS)\<close>, which may raise;
  \<^item> \<open>paste\<close>: \<open>layer.paste(img, position, img)\<close>, the layer after pasting;
  \<^item> \<open>alpha_composite\<close>, \<open>convert_la\<close>: \<open>Image.alpha_composite\<close>, \<open>convert("LA")\<close>;
  \<^item> \<open>encode_png\<close>: the bytes that \<open>save\<close> writes for a picture;
  \<^item> \<open>real_path\<close>: the file that a path string names (two strings may name one file).
  Each is a function: the same arguments give the same result.
\<close>

record platform =
  decode :: "byte list \<Rightarrow> decoded"
  resize :: "rgba image \<Rightarrow> int \<times> int \<Rightarrow> error + rgba image"
  paste :: "rgba image \<Rightarrow> rgba image \<Rightarrow> int \<times> int \<Rightarrow> rgba image"
  alpha_composite :: "rgba image \<Rightarrow> rgba image \<Rightarrow> rgba image"
  convert_la :: "rgba image \<Rightarrow> (byte \<times> byte) image"
  encode_png :: "picture \<Rightarrow> byte list"
  real_path :: "string \<Rightarrow> string"

text \<open>
  The world that \<open>main\<close> acts on: the file system (what each file name holds), the
  paths that \<open>Image.open\<close> was called with, the log and the namespaces printed by
  \<open>--debug\<close>. An uncaught exception leaves the world as it was when it was raised, so
  \<open>main\<close> and its parts return the exception (or \<open>None\<close>) together with the world.
\<close>

datatype node = Missing | Dir | File "byte list"

datatype level = INFO | WARNING

record world =
  disk :: "string \<Rightarrow> node"
  opened :: "string list"
  log :: "(level \<times> string) list"
  printed :: "args list"

definition logging :: "level \<Rightarrow> string \<Rightarrow> world \<Rightarrow> world" where
  "logging lv msg w = w\<lparr>log := log w @ [(lv, msg)]\<rparr>"

subsection \<open>\<open>resize_to_fit_bounding_box\<close>\<close>

definition resize_to_fit_bounding_box ::
  "platform \<Rightarrow> rgba image \<Rightarrow> int \<Rightarrow> int \<Rightarrow> error + rgba image \<times> int \<times> int" where
  "resize_to_fit_bounding_box pf img bb_width bb_height =
     (case new_size (int (fst (img_size img)), int (snd (img_size img))) bb_width bb_height of
        Inl e \<Rightarrow> Inl e
      | Inr (new_img_width, new_img_height) \<Rightarrow>
          (case resize pf img (new_img_width, new_img_height) of
             Inl e \<Rightarrow> Inl e
           | Inr resized \<Rightarrow> Inr (resized, new_img_width, new_img_height)))"

subsection \<open>One image: the body of the loop of \<open>main\<close>, lines 142 to 189\<close>

definition process_image :: "platform \<Rightarrow> args \<Rightarrow> rgba image \<Rightarrow> error + picture" where
  "process_image pf a img =
     (case detect_bbox img of
        Inl e \<Rightarrow> Inl e
      | Inr bounding_box \<Rightarrow>
     (let cropped = crop img bounding_box
      in case margin a of
           [m_top, m_right, m_bottom, m_left] \<Rightarrow>
             (case resize_to_fit_bounding_box pf cropped
                     (width a - m_left - m_right) (height a - m_top - m_bottom) of
                Inl e \<Rightarrow> Inl e
              | Inr (resized, rw, rh) \<Rightarrow>
             (case getpixel img (3, 3) of
                Inl e \<Rightarrow> Inl e
              | Inr probe \<Rightarrow>
             (case background_color (background a) probe of
                Inl e \<Rightarrow> Inl e
              | Inr bgc \<Rightarrow>
             (case recolour (color a) resized of
                Inl e \<Rightarrow> Inl e
              | Inr fg \<Rightarrow>
                 (let canvas = (nat (width a), nat (height a));
                      logo_layer =
                        paste pf
                          (new_image canvas \<lparr>red = 128, green = 128, blue = 128, alpha = 0\<rparr>)
                          fg (paste_position a (m_top, m_right, m_bottom, m_left) rw rh);
                      final = alpha_composite pf (new_image canvas bgc) logo_layer
                  in Inr (if greyscale a then LA (convert_la pf final) else RGBA final))))))
         | _ \<Rightarrow> Inl ValueError))"

subsection \<open>Paths\<close>

text \<open>
  \<open>Path(path).stem\<close> on a POSIX path: the last component that is neither empty nor
  \<open>.\<close>, without its last suffix; a dot that starts or ends the name starts no suffix.
\<close>

definition path_name :: "string \<Rightarrow> string" where
  "path_name path =
     (let parts = filter (\<lambda>p. p \<noteq> [] \<and> p \<noteq> ''.'') (split CHR ''/'' path)
      in if parts = [] then [] else last parts)"

definition stem :: "string \<Rightarrow> string" where
  "stem path =
     (let name = path_name path;
          after = takeWhile (\<lambda>c. c \<noteq> CHR ''.'') (rev name);
          i = length name - length after - 1
      in if length after < length name \<and> 0 < i \<and> after \<noteq> [] then take i name else name)"

definition output_path :: "args \<Rightarrow> string \<Rightarrow> string" where
  "output_path a path = ''./'' @ output_dir a @ ''/'' @ stem path @ ''.png''"

subsection \<open>\<open>main\<close>\<close>

text \<open>
  \<open>final.save(path)\<close> writes the encoded picture; it raises when the path names a
  directory. \<open>Path(args.output).mkdir(mode=0o777, parents=True, exist_ok=True)\<close> leaves
  an existing directory alone, creates a missing one, and raises when the path names a
  file. (The parents that \<open>mkdir\<close> creates, and access rights, are not modelled.)
\<close>

definition save :: "platform \<Rightarrow> picture \<Rightarrow> string \<Rightarrow> world \<Rightarrow> error option \<times> world" where
  "save pf final path w =
     (case disk w (real_path pf path) of
        Dir \<Rightarrow> (Some OSError, w)
      | _ \<Rightarrow> (None, w\<lparr>disk := (disk w)(real_path pf path := File (encode_png pf final))\<rparr>))"

definition mkdir :: "platform \<Rightarrow> string \<Rightarrow> world \<Rightarrow> error option \<times> world" where
  "mkdir pf path w =
     (case disk w (real_path pf path) of
        File bytes \<Rightarrow> (Some OSError, w)
      | _ \<Rightarrow> (None, w\<lparr>disk := (disk w)(real_path pf path := Dir)\<rparr>))"

text \<open>
  \<^verbatim>\<open>
  for path in args.images:
      image = None
      try:
          image = Image.open(path).convert("RGBA")
          if args.verbose:
              logging.info(f" Image `{path}` correctly opened")
      except FileNotFoundError:
          logging.warning(f" File `{path}` not found")
      except UnidentifiedImageError:
          logging.warning(f" File `{path}` can't be opened")
      if not image:
          continue
      ...
      final.save(f"./{args.output}/{Path(path).stem}.png")
  \<close>
  \<open>open_image\<close> is the \<open>try\<close> statement: it returns the image, or \<open>None\<close> after a
  warning, or the exception that the \<open>try\<close> does not catch (for a directory, or for a
  file that the decoder gives up on).
\<close>

definition open_image ::
  "platform \<Rightarrow> args \<Rightarrow> string \<Rightarrow> world \<Rightarrow> (error + rgba image option) \<times> world" where
  "open_image pf a path w =
     (let w1 = w\<lparr>opened := opened w @ [path]\<rparr>
      in case disk w (real_path pf path) of
           Missing \<Rightarrow> (Inr None, logging WARNING ('' File `'' @ path @ ''` not found'') w1)
         | Dir \<Rightarrow> (Inl OSError, w1)
         | File bytes \<Rightarrow>
             (case decode pf bytes of
                Raster img \<Rightarrow>
                  (Inr (Some img),
                   if verbose a
                   then logging INFO ('' Image `'' @ path @ ''` correctly opened'') w1
                   else w1)
              | Unidentified \<Rightarrow>
                  (Inr None,
                   logging WARNING
                     ('' File `'' @ path @ ''` can'' @ [CHR 0x27] @ ''t be opened'') w1)
              | Broken \<Rightarrow> (Inl OSError, w1)))"

definition process_path :: "platform \<Rightarrow> args \<Rightarrow> string \<Rightarrow> world \<Rightarrow> error option \<times> world" where
  "process_path pf a path w =
     (case open_image pf a path w of
        (Inl e, w1) \<Rightarrow> (Some e, w1)
      | (Inr None, w1) \<Rightarrow> (None, w1)
      | (Inr (Some img), w1) \<Rightarrow>
          (case process_image pf a img of
             Inl e \<Rightarrow> (Some e, w1)
           | Inr final \<Rightarrow> save pf final (output_path a path) w1))"

fun process_all :: "platform \<Rightarrow> args \<Rightarrow> string list \<Rightarrow> world \<Rightarrow> error option \<times> world" where
  "process_all pf a [] w = (None, w)"
| "process_all pf a (path # paths) w =
     (case process_path pf a path w of
        (Some e, w1) \<Rightarrow> (Some e, w1)
      | (None, w1) \<Rightarrow> process_all pf a paths w1)"

text \<open>
  \<^verbatim>\<open>
  def main(args=None):
      args = parse_args(args)
      if args.debug:
          print(args)
      Path(args.output).mkdir(mode=0o777, parents=True, exist_ok=True)
      for path in args.images: ...
  \<close>
  The result \<open>None\<close> is the normal end of the process (exit status 0); \<open>Some e\<close> is the
  uncaught exception that ends it.
\<close>

definition main :: "platform \<Rightarrow> cli \<Rightarrow> world \<Rightarrow> error option \<times> world" where
  "main pf c w =
     (case parse_args c of
        Inl e \<Rightarrow> (Some e, w)
      | Inr a \<Rightarrow>
          (let w1 = (if debug a then w\<lparr>printed := printed w @ [a]\<rparr> else w)
           in case mkdir pf (output_dir a) w1 of
                (Some e, w2) \<Rightarrow> (Some e, w2)
              | (None, w2) \<Rightarrow> process_all pf a (images a) w2))"

subsection \<open>Notions used to state the properties\<close>




text \<open>
  The image of the specification's end-to-end example: 40 by 40 pixels, transparent
  but for an opaque region that starts at pixel \<open>(10, 10)\<close> and whose box is
  \<open>(10, 10, 30, 30)\<close>, that is, columns and rows 10 to 29.
\<close>

definition example_logo :: "rgba image" where
  "example_logo =
     \<lparr>img_size = (40, 40),
      pixels = (\<lambda>(x, y). if 10 \<le> x \<and> x < 30 \<and> 10 \<le> y \<and> y < 30
                          then \<lparr>red = 200, green = 30, blue = 30, alpha = 255\<rparr>
                          else \<lparr>red = 0, green = 0, blue = 0, alpha = 0\<rparr>)\<rparr>"

text \<open>
  A platform, a world and a command line for examples. The example platform decodes the
  one-byte file \<open>[1]\<close> to \<open>example_logo\<close>, resizes by nearest neighbour, pastes the
  pixels that are not transparent, composes by covering, and encodes a picture as its
  size followed by its alpha values; each path names itself.
\<close>

definition example_platform :: platform where
  "example_platform =
     \<lparr>decode = (\<lambda>bytes. if bytes = [1] then Raster example_logo
                         else if bytes = [2] then Broken else Unidentified),
      resize = (\<lambda>img sz.
         if fst sz < 1 \<or> snd sz < 1 then Inl ValueError
         else Inr \<lparr>img_size = (nat (fst sz), nat (snd sz)),
                   pixels = (\<lambda>(x, y). pixels img
                               (x * fst (img_size img) div nat (fst sz),
                                y * snd (img_size img) div nat (snd sz)))\<rparr>),
      paste = (\<lambda>layer img pos.
         \<lparr>img_size = img_size layer,
          pixels = (\<lambda>(x, y).
             let i = int x - fst pos; j = int y - snd pos
             in if 0 \<le> i \<and> i < int (fst (img_size img)) \<and> 0 \<le> j
                   \<and> j < int (snd (img_size img)) \<and> alpha (pixels img (nat i, nat j)) \<noteq> 0
                then pixels img (nat i, nat j) else pixels layer (x, y))\<rparr>),
      alpha_composite = (\<lambda>im1 im2.
         \<lparr>img_size = img_size im1,
          pixels = (\<lambda>xy. if alpha (pixels im2 xy) = 0 then pixels im1 xy
                          else pixels im2 xy)\<rparr>),
      convert_la = point (\<lambda>p. (red p, alpha p)),
      encode_png = (\<lambda>pic.
         case pic of
           RGBA im \<Rightarrow>
             [of_nat (fst (img_size im)), of_nat (snd (img_size im))]
             @ concat (map (\<lambda>y. map (\<lambda>x. alpha (pixels im (x, y))) [0..<fst (img_size im)])
                           [0..<snd (img_size im)])
         | LA im \<Rightarrow>
             [of_nat (fst (img_size im)), of_nat (snd (img_size im))]
             @ concat (map (\<lambda>y. map (\<lambda>x. snd (pixels im (x, y))) [0..<fst (img_size im)])
                           [0..<snd (img_size im)])),
      real_path = (\<lambda>path. path)\<rparr>"




text \<open>
  A second command line: a canvas of 62 by 42 pixels with the margins 5, 10, 5 and 11
  (top, right, bottom, left), which leaves a box of 41 by 32 pixels, and the foreground
  colour \<open>ffab03\<close>.
\<close>

definition framed_cli :: cli where
  "framed_cli =
     \<lparr>cli_images = [''logo.png''], cli_height = 42, cli_width = - 62,
      cli_margin = ''5,10,5,11'', cli_background = None, cli_output = ''cropped'',
      cli_verbose = False, cli_debug = False, cli_greyscale = False,
      cli_color = Some ''ffab03''\<rparr>"

definition framed_args :: args where
  "framed_args =
     \<lparr>images = [''logo.png''], height = 42, width = 62, margin = [5, 10, 5, 11],
      background = None, output_dir = ''cropped'', verbose = False, debug = False,
      greyscale = False, color = Some (Channels [255, 171, 3])\<rparr>"

section \<open>Properties\<close>

subsection \<open>\<open>split\<close>, \<open>join\<close> and \<open>collect\<close>\<close>

lemma split_not_Nil: "split c s \<noteq> []"
  by (induction s) auto

lemma split_no_separator: "c \<notin> set f \<Longrightarrow> split c f = [f]"
  by (induction f) auto

lemma split_append_separator:
  "c \<notin> set f \<Longrightarrow> split c (f @ c # s) = f # split c s"
  by (induction f) auto

lemma split_join:
  "fs \<noteq> [] \<Longrightarrow> list_all (\<lambda>f. c \<notin> set f) fs \<Longrightarrow> split c (join c fs) = fs"
proof (induction c fs rule: join.induct)
  case (1 c)
  then show ?case by simp
next
  case (2 c f)
  then show ?case by (simp add: split_no_separator)
next
  case (3 c f g fs)
  then show ?case by (simp add: split_append_separator)
qed

lemma collect_length: "collect f xs = Inr ys \<Longrightarrow> length ys = length xs"
  by (induction xs arbitrary: ys) (auto split: sum.splits)

lemma collect_take: "collect f xs = Inr ys \<Longrightarrow> collect f (take n xs) = Inr (take n ys)"
proof (induction xs arbitrary: ys n)
  case Nil
  then show ?case by simp
next
  case (Cons x xs)
  then show ?case by (cases n) (auto split: sum.splits)
qed

lemma collect_total: "list_all (\<lambda>x. \<not> isl (f x)) xs \<Longrightarrow> \<exists>ys. collect f xs = Inr ys"
proof (induction xs)
  case Nil
  then show ?case by simp
next
  case (Cons x xs)
  then obtain ys where "collect f xs = Inr ys" by auto
  moreover from Cons.prems obtain y where "f x = Inr y" by (cases "f x") auto
  ultimately show ?case by simp
qed

lemma at_least_four:
  "4 \<le> length vs \<Longrightarrow> \<exists>a b c d r. vs = a # b # c # d # r"
  by (cases vs; cases "tl vs"; cases "tl (tl vs)"; cases "tl (tl (tl vs))") auto

subsection \<open>\<open>parse_margin\<close>\<close>

text \<open>The broadcast reads at most the first four values.\<close>

lemma broadcast_take4:
  assumes "4 \<le> length vs"
  shows "broadcast (map Some vs @ replicate 4 None)
         = broadcast (map Some (take 4 vs) @ replicate 4 None)"
proof -
  from assms obtain a b c d r where "vs = a # b # c # d # r"
    using at_least_four by blast
  then show ?thesis by (simp add: broadcast_def)
qed

text \<open>
  Every entry of a returned margin is one of the parsed values or the \<open>0\<close> of the last
  branch: no \<open>None\<close> of the padding is ever returned.
\<close>

lemma broadcast_values:
  assumes "broadcast (map Some vs @ replicate 4 None) = Inr m"
  shows "length m = 4 \<and> set m \<subseteq> set vs \<union> {0}"
proof -
  consider "vs = []" | a where "vs = [a]" | a b where "vs = [a, b]"
    | a b c where "vs = [a, b, c]" | a b c d r where "vs = a # b # c # d # r"
    by (metis list.exhaust)
  then show ?thesis
    using assms
    by cases (auto simp: broadcast_def truthy_def numeral_eq_Suc split: if_splits)
qed

lemma parse_margin_examples:
  "parse_margin ''5'' = Inr [5, 5, 5, 5]"
  "parse_margin ''1,2'' = Inr [1, 2, 1, 2]"
  "parse_margin ''1,2,3'' = Inr [1, 2, 3, 2]"
  "parse_margin ''1,2,3,4'' = Inr [1, 2, 3, 4]"
  "parse_margin ''-5'' = Inr [5, 5, 5, 5]"
  "parse_margin ''0'' = Inr [0, 0, 0, 0]"
  by code_simp+

text \<open>
  C2 (code defect). The claim gives the broadcast rules: four values yield exactly
  \<open>[v1, v2, v3, v4]\<close>, three yield \<open>[v1, v2, v3, v2]\<close>, two yield \<open>[v1, v2, v1, v2]\<close>,
  and the empty string yields \<open>[0, 0, 0, 0]\<close>. The code tests \<open>if d:\<close>, \<open>elif c:\<close>,
  \<open>elif b:\<close> to find out how many values were given, and a value \<open>0\<close> is as false as
  the padding \<open>None\<close>: a trailing zero is taken for a missing value. For the four values
  \<open>1,2,3,0\<close> the code returns \<open>[1, 2, 3, 2]\<close> (left margin 2, not 0), for the three
  values \<open>1,2,0\<close> it returns \<open>[1, 2, 1, 2]\<close>, for the two values \<open>5,0\<close> it returns
  \<open>[5, 5, 5, 5]\<close>; and the empty string raises \<open>ValueError\<close>, as \<open>int\<close> of an empty
  string does.
\<close>

theorem parse_margin_trailing_zero:
  "parse_margin ''1,2,3,0'' = Inr [1, 2, 3, 2]
   \<and> parse_margin ''1,2,0'' = Inr [1, 2, 1, 2]
   \<and> parse_margin ''5,0'' = Inr [5, 5, 5, 5]
   \<and> parse_margin '''' = Inl ValueError"
  by code_simp

text \<open>
  A margin string with more than four comma-separated integers is accepted, and its
  result is the result for its first four fields alone: every field after the fourth is
  parsed and then ignored.
\<close>

lemma parse_margin_more_than_four:
  assumes "4 < length fs"
    and "list_all (\<lambda>f. CHR '','' \<notin> set f) fs"
    and "list_all (\<lambda>f. \<not> isl (py_int 10 f)) fs"
  shows "\<exists>m. parse_margin (join CHR '','' fs) = Inr m
           \<and> parse_margin (join CHR '','' (take 4 fs)) = Inr m"
proof -
  let ?g = "\<lambda>n. map_sum id abs (py_int 10 n)"
  from assms(3) have "list_all (\<lambda>f. \<not> isl (?g f)) fs"
    by (simp add: list_all_iff isl_map_sum)
  then obtain vs where vs: "collect ?g fs = Inr vs"
    using collect_total [of "\<lambda>n. map_sum id abs (py_int 10 n)" fs] by blast
  then have len: "length vs = length fs" by (rule collect_length)
  from vs have vs4: "collect ?g (take 4 fs) = Inr (take 4 vs)" by (rule collect_take)
  from assms(1) have ne: "fs \<noteq> []" "take 4 fs \<noteq> []" by auto
  from assms(2) have sep4: "list_all (\<lambda>f. CHR '','' \<notin> set f) (take 4 fs)"
    using set_take_subset [of 4 fs] by (auto simp: list_all_iff)
  have whole: "parse_margin (join CHR '','' fs) = broadcast (map Some vs @ replicate 4 None)"
    by (simp add: parse_margin_def split_join [OF ne(1) assms(2)] vs)
  have first: "parse_margin (join CHR '','' (take 4 fs))
               = broadcast (map Some (take 4 vs) @ replicate 4 None)"
    by (simp add: parse_margin_def split_join [OF ne(2) sep4] vs4)
  from assms(1) len have four: "4 \<le> length vs" by simp
  then have same: "broadcast (map Some vs @ replicate 4 None)
                   = broadcast (map Some (take 4 vs) @ replicate 4 None)"
    by (rule broadcast_take4)
  from four obtain a b c d r where "vs = a # b # c # d # r"
    using at_least_four by blast
  then obtain m where m: "broadcast (map Some vs @ replicate 4 None) = Inr m"
    by (simp add: broadcast_def)
  from whole m have "parse_margin (join CHR '','' fs) = Inr m" by simp
  moreover from first same m have "parse_margin (join CHR '','' (take 4 fs)) = Inr m" by simp
  ultimately show ?thesis by blast
qed

text \<open>
  C10 (code defect, the one of C2). The claim: a margin string with more than four
  integers is accepted, the broadcast rules are applied to the first four values and
  the values after the fourth are ignored, so that \<open>1,2,3,4,5\<close> yields
  \<open>[1, 2, 3, 4]\<close>. The string is accepted and the fifth value is ignored, but the rule
  for four values, exactly \<open>[v1, v2, v3, v4]\<close>, is missed when the fourth value is
  \<open>0\<close>: \<open>if d:\<close> is false for it and the code goes on to the rule for three values.
  For \<open>1,2,3,0,5\<close> it returns \<open>[1, 2, 3, 2]\<close> where the first four values are
  \<open>1, 2, 3, 0\<close>, and for \<open>1,2,0,0,5\<close> it returns \<open>[1, 2, 1, 2]\<close>.
\<close>

theorem parse_margin_zero_before_ignored:
  "parse_margin ''1,2,3,0,5'' = Inr [1, 2, 3, 2]
   \<and> parse_margin ''1,2,0,0,5'' = Inr [1, 2, 1, 2]
   \<and> parse_margin ''1,2,3,4,5'' = Inr [1, 2, 3, 4]
   \<and> parse_margin ''1,2,3,0'' = parse_margin ''1,2,3,0,5''"
  by code_simp

subsection \<open>Colour options\<close>

lemma hex_char_digit:
  assumes "is_hex_char c"
  shows "\<exists>d. digit_of c = Some d \<and> d < 16"
  using assms by (auto simp: is_hex_char_def digit_of_def Let_def)

lemma hex_char_plain:
  assumes "is_hex_char c"
  shows "\<not> is_space c" "c \<noteq> CHR ''-''" "c \<noteq> CHR ''+''" "c \<noteq> CHR ''_''"
    "c \<noteq> CHR ''x''" "c \<noteq> CHR ''X''"
  using assms by (auto simp: is_hex_char_def is_space_def Let_def)

lemma py_int_two_hex:
  assumes "is_hex_char a" and "is_hex_char b"
    and "digit_of a = Some da" and "digit_of b = Some db"
  shows "py_int 16 [a, b] = Inr (int da * 16 + int db)"
proof -
  from assms(1,3) hex_char_digit have da: "da < 16" by fastforce
  from assms(2,4) hex_char_digit have db: "db < 16" by fastforce
  have st: "strip [a, b] = [a, b]"
    using hex_char_plain(1) [OF assms(1)] hex_char_plain(1) [OF assms(2)]
    by (simp add: strip_def)
  have ok: "digits_ok 16 True [a, b]"
    using hex_char_plain(4) [OF assms(1)] hex_char_plain(4) [OF assms(2)] assms(3,4) da db
    by (simp add: is_digit_def)
  have val: "digits_value 16 [a, b] = int da * 16 + int db"
    using hex_char_plain(4) [OF assms(1)] hex_char_plain(4) [OF assms(2)] assms(3,4)
    by (simp add: digits_value_def)
  show ?thesis
    using hex_char_plain [OF assms(1)] hex_char_plain [OF assms(2)] ok val
    by (simp add: py_int_def st Let_def)
qed

lemma six_chars:
  "length s = 6 \<Longrightarrow> \<exists>a b c d e f. s = [a, b, c, d, e, f]"
  by (cases s; cases "tl s"; cases "tl (tl s)"; cases "tl (tl (tl s))";
      cases "tl (tl (tl (tl s)))"; cases "tl (tl (tl (tl (tl s))))") auto

lemma py_int_hex_pair:
  assumes "is_hex_char a" and "is_hex_char b"
  shows "\<exists>v. py_int 16 [a, b] = Inr v \<and> 0 \<le> v \<and> v \<le> 255"
proof -
  from hex_char_digit [OF assms(1)] obtain da where da: "digit_of a = Some da" "da < 16"
    by blast
  from hex_char_digit [OF assms(2)] obtain db where db: "digit_of b = Some db" "db < 16"
    by blast
  have "py_int 16 [a, b] = Inr (int da * 16 + int db)"
    by (rule py_int_two_hex [OF assms da(1) db(1)])
  moreover from da(2) db(2) have "int da * 16 + int db \<le> 255" by simp
  ultimately show ?thesis by simp
qed

lemma hex2rgb_six:
  assumes "six_hex_digits s"
  shows "\<exists>r g b. hex2rgb s = Inr [r, g, b]
           \<and> 0 \<le> r \<and> r \<le> 255 \<and> 0 \<le> g \<and> g \<le> 255 \<and> 0 \<le> b \<and> b \<le> 255"
proof -
  from assms have "length s = 6" by (simp add: six_hex_digits_def)
  then obtain a b c d e f where s: "s = [a, b, c, d, e, f]"
    using six_chars [of s] by blast
  with assms have hx: "is_hex_char a" "is_hex_char b" "is_hex_char c"
    "is_hex_char d" "is_hex_char e" "is_hex_char f"
    by (simp_all add: six_hex_digits_def)
  from py_int_hex_pair [OF hx(1) hx(2)] obtain r
    where r: "py_int 16 [a, b] = Inr r" "0 \<le> r" "r \<le> 255" by blast
  from py_int_hex_pair [OF hx(3) hx(4)] obtain g
    where g: "py_int 16 [c, d] = Inr g" "0 \<le> g" "g \<le> 255" by blast
  from py_int_hex_pair [OF hx(5) hx(6)] obtain b'
    where b': "py_int 16 [e, f] = Inr b'" "0 \<le> b'" "b' \<le> 255" by blast
  have slices: "take 2 s = [a, b]" "take 2 (drop 2 s) = [c, d]"
    "take 2 (drop 4 s) = [e, f]"
    by (simp_all add: s numeral_eq_Suc)
  have "hex2rgb s = Inr [r, g, b']"
    by (simp add: hex2rgb_def \<open>length s = 6\<close> slices r(1) g(1) b'(1))
  with r g b' show ?thesis by blast
qed

lemma is_hex_six: "six_hex_digits s \<Longrightarrow> is_hex s"
  by (simp add: six_hex_digits_def is_hex_def)

lemma is_hex_length: "is_hex s \<Longrightarrow> \<not> six_hex_digits s \<Longrightarrow> length s \<noteq> 6"
  by (auto simp: six_hex_digits_def is_hex_def)

lemma parse_colour_six:
  assumes "six_hex_digits s"
  shows "\<exists>r g b. parse_colour (Some s) = Inr (Some (Channels [r, g, b]))
           \<and> 0 \<le> r \<and> r \<le> 255 \<and> 0 \<le> g \<and> g \<le> 255 \<and> 0 \<le> b \<and> b \<le> 255"
proof -
  from assms have "s \<noteq> []" by (auto simp: six_hex_digits_def)
  with hex2rgb_six [OF assms] is_hex_six [OF assms] show ?thesis
    by (auto simp: parse_colour_def)
qed

lemma parse_colour_other:
  assumes "\<not> six_hex_digits s" and "s \<noteq> []"
  shows "parse_colour (Some s) = Inl ArgumentTypeError
         \<or> parse_colour (Some s) = Inl AssertionError"
proof (cases "is_hex s")
  case True
  from is_hex_length [OF True assms(1)] have "length s \<noteq> 6" .
  with True assms(2) show ?thesis by (simp add: parse_colour_def hex2rgb_def)
next
  case False
  with assms(2) show ?thesis by (simp add: parse_colour_def)
qed

lemma parse_colour_Inr_cases:
  assumes "parse_colour opt = Inr c"
  shows "c = None \<or> c = Some (Str [])
         \<or> (\<exists>r g b. c = Some (Channels [r, g, b])
              \<and> 0 \<le> r \<and> r \<le> 255 \<and> 0 \<le> g \<and> g \<le> 255 \<and> 0 \<le> b \<and> b \<le> 255)"
proof (cases opt)
  case None
  with assms show ?thesis by (simp add: parse_colour_def)
next
  case (Some s)
  show ?thesis
  proof (cases "s = []")
    case True
    with Some assms show ?thesis by (auto simp: parse_colour_def)
  next
    case False
    show ?thesis
    proof (cases "six_hex_digits s")
      case True
      from parse_colour_six [OF True] Some assms show ?thesis by auto
    next
      case no: False
      from parse_colour_other [OF no False] Some assms show ?thesis by auto
    qed
  qed
qed

subsection \<open>\<open>parse_args\<close> and the order of effects in \<open>main\<close>\<close>

lemma main_parse_error: "parse_args c = Inl e \<Longrightarrow> main pf c w = (Some e, w)"
  by (simp add: main_def)

lemma parse_args_colour_error:
  "parse_colour (cli_color c) = Inl e \<Longrightarrow> parse_args c = Inl e"
  by (simp add: parse_args_def)

lemma parse_args_background_error:
  "parse_colour (cli_background c) = Inl e \<Longrightarrow> \<exists>e'. parse_args c = Inl e'"
  by (cases "parse_colour (cli_color c)") (simp_all add: parse_args_def)

lemma parse_args_Inr:
  assumes "parse_args c = Inr a"
  shows "\<exists>m0 m1 m2 m3.
           parse_margin (cli_margin c) = Inr [m0, m1, m2, m3]
           \<and> margin a = [m0, m1, m2, m3]
           \<and> m1 + m3 < \<bar>cli_width c\<bar> \<and> m0 + m2 < \<bar>cli_height c\<bar>
           \<and> width a = \<bar>cli_width c\<bar> \<and> height a = \<bar>cli_height c\<bar>
           \<and> parse_colour (cli_color c) = Inr (color a)
           \<and> parse_colour (cli_background c) = Inr (background a)
           \<and> images a = cli_images c \<and> output_dir a = cli_output c
           \<and> verbose a = cli_verbose c \<and> debug a = cli_debug c
           \<and> greyscale a = cli_greyscale c"
proof -
  from assms obtain col where col: "parse_colour (cli_color c) = Inr col"
    by (cases "parse_colour (cli_color c)") (simp_all add: parse_args_def)
  from assms col obtain bg where bg: "parse_colour (cli_background c) = Inr bg"
    by (cases "parse_colour (cli_background c)") (simp_all add: parse_args_def)
  from assms col bg obtain m where m: "parse_margin (cli_margin c) = Inr m"
    by (cases "parse_margin (cli_margin c)") (simp_all add: parse_args_def)
  from m have "length m = 4"
    using broadcast_values by (auto simp: parse_margin_def split: sum.splits)
  then obtain m0 m1 m2 m3 where m4: "m = [m0, m1, m2, m3]"
    by (cases m; cases "tl m"; cases "tl (tl m)"; cases "tl (tl (tl m))") auto
  from assms col bg m m4 show ?thesis
    by (auto simp: parse_args_def Let_def split: if_splits)
qed

lemma parse_args_margin_error:
  assumes "parse_margin (cli_margin c) = Inr [m0, m1, m2, m3]"
    and "\<not> (m1 + m3 < \<bar>cli_width c\<bar> \<and> m0 + m2 < \<bar>cli_height c\<bar>)"
  shows "\<exists>e. parse_args c = Inl e"
proof (cases "parse_args c")
  case (Inl e)
  then show ?thesis by blast
next
  case (Inr a)
  from parse_args_Inr [OF Inr] assms show ?thesis by auto
qed

text \<open>
  C5 (corrected). The claim: a colour option is accepted if and only if it is exactly
  six hexadecimal digits, and any other string is a fatal error before any image is
  processed. The empty string is not six hexadecimal digits and raises nothing:
  \<open>if args.color:\<close> is false for it, so it is kept and later read as "no override".
\<close>

theorem empty_colour_is_accepted:
  "\<not> six_hex_digits ''''
   \<and> parse_colour (Some '''') = Inr (Some (Str ''''))
   \<and> \<not> given (Some (Str ''''))
   \<and> parse_args \<lparr>cli_images = [''logo.png''], cli_height = 50, cli_width = 50,
                   cli_margin = ''0'', cli_background = Some '''', cli_output = ''cropped'',
                   cli_verbose = False, cli_debug = False, cli_greyscale = False,
                   cli_color = Some ''''\<rparr>
       = Inr \<lparr>images = [''logo.png''], height = 50, width = 50, margin = [0, 0, 0, 0],
              background = Some (Str ''''), output_dir = ''cropped'', verbose = False,
              debug = False, greyscale = False, color = Some (Str '''')\<rparr>"
  by code_simp

text \<open>
  C5 as amended: a non-empty colour option is accepted if and only if it is exactly six
  hexadecimal digits (upper or lower case), and then it is parsed to three channels
  between 0 and 255; any other non-empty string, for \<open>--color\<close> or for
  \<open>--background\<close>, ends \<open>main\<close> with an exception and the world untouched (no
  directory made, no file opened). The exception is \<open>ArgumentTypeError\<close>, or
  \<open>AssertionError\<close> for six hexadecimal digits followed by a newline.
\<close>

theorem colour_option_validation:
  assumes "s \<noteq> []"
  shows "(six_hex_digits s \<longrightarrow>
            (\<exists>r g b. parse_colour (Some s) = Inr (Some (Channels [r, g, b]))
               \<and> 0 \<le> r \<and> r \<le> 255 \<and> 0 \<le> g \<and> g \<le> 255 \<and> 0 \<le> b \<and> b \<le> 255))
       \<and> (\<not> six_hex_digits s \<longrightarrow>
            (parse_colour (Some s) = Inl ArgumentTypeError
               \<or> parse_colour (Some s) = Inl AssertionError)
            \<and> (\<exists>e. main pf (c\<lparr>cli_color := Some s\<rparr>) w = (Some e, w))
            \<and> (\<exists>e. main pf (c\<lparr>cli_background := Some s\<rparr>) w = (Some e, w)))"
proof (intro conjI impI)
  assume "six_hex_digits s"
  then show "\<exists>r g b. parse_colour (Some s) = Inr (Some (Channels [r, g, b]))
               \<and> 0 \<le> r \<and> r \<le> 255 \<and> 0 \<le> g \<and> g \<le> 255 \<and> 0 \<le> b \<and> b \<le> 255"
    by (rule parse_colour_six)
next
  assume no: "\<not> six_hex_digits s"
  from parse_colour_other [OF no assms]
  show bad: "parse_colour (Some s) = Inl ArgumentTypeError
             \<or> parse_colour (Some s) = Inl AssertionError" .
  then obtain e where e: "parse_colour (Some s) = Inl e" by blast
  have "parse_args (c\<lparr>cli_color := Some s\<rparr>) = Inl e"
    by (rule parse_args_colour_error) (simp add: e)
  then show "\<exists>e. main pf (c\<lparr>cli_color := Some s\<rparr>) w = (Some e, w)"
    using main_parse_error by blast
  have "\<exists>e'. parse_args (c\<lparr>cli_background := Some s\<rparr>) = Inl e'"
    by (rule parse_args_background_error [of _ e]) (simp add: e)
  then show "\<exists>e. main pf (c\<lparr>cli_background := Some s\<rparr>) w = (Some e, w)"
    using main_parse_error by blast
qed

theorem colour_option_validation_witness:
  "parse_colour (Some ''ffab03'') = Inr (Some (Channels [255, 171, 3]))
   \<and> parse_colour (Some ''FFAB03'') = Inr (Some (Channels [255, 171, 3]))
   \<and> parse_colour (Some ''zz0000'') = Inl ArgumentTypeError
   \<and> parse_colour (Some ''ffab0'') = Inl ArgumentTypeError
   \<and> (\<forall>pf c w. \<exists>e. main pf (c\<lparr>cli_color := Some ''zz0000''\<rparr>) w = (Some e, w))
   \<and> (\<forall>pf c w. \<exists>e. main pf (c\<lparr>cli_background := Some ''ffab0''\<rparr>) w = (Some e, w))"
proof -
  have ne: "''zz0000'' \<noteq> []" "''ffab0'' \<noteq> []" by simp_all
  have no: "\<not> six_hex_digits ''zz0000''" "\<not> six_hex_digits ''ffab0''" by code_simp+
  have "\<exists>e. main pf (c\<lparr>cli_color := Some ''zz0000''\<rparr>) w = (Some e, w)" for pf c w
    using colour_option_validation [OF ne(1), of pf c w] no(1) by blast
  moreover
  have "\<exists>e. main pf (c\<lparr>cli_background := Some ''ffab0''\<rparr>) w = (Some e, w)" for pf c w
    using colour_option_validation [OF ne(2), of pf c w] no(2) by blast
  moreover
  have "parse_colour (Some ''ffab03'') = Inr (Some (Channels [255, 171, 3]))"
    "parse_colour (Some ''FFAB03'') = Inr (Some (Channels [255, 171, 3]))"
    "parse_colour (Some ''zz0000'') = Inl ArgumentTypeError"
    "parse_colour (Some ''ffab0'') = Inl ArgumentTypeError"
    by code_simp+
  ultimately show ?thesis by blast
qed

text \<open>
  C6. \<open>parse_args\<close> replaces width and height by their absolute values, and when the
  width is not greater than the left and right margins together, or the height not
  greater than the top and bottom margins together, \<open>main\<close> ends with an exception and
  the world as it was: no directory has been made and no file opened. (The exception
  is the \<open>AssertionError\<close> of the two \<open>assert\<close> statements, unless a colour option
  was refused before them; assertions run unless the interpreter is started with
  \<open>-O\<close>.)
\<close>

theorem validation_before_effects:
  assumes "parse_margin (cli_margin c) = Inr [m_top, m_right, m_bottom, m_left]"
  shows "(\<not> (m_right + m_left < \<bar>cli_width c\<bar> \<and> m_top + m_bottom < \<bar>cli_height c\<bar>)
            \<longrightarrow> (\<exists>e. main pf c w = (Some e, w)))
       \<and> (\<forall>a. parse_args c = Inr a \<longrightarrow>
              width a = \<bar>cli_width c\<bar> \<and> height a = \<bar>cli_height c\<bar>
              \<and> margin a = [m_top, m_right, m_bottom, m_left]
              \<and> m_right + m_left < width a \<and> m_top + m_bottom < height a)"
proof (intro conjI impI allI)
  assume "\<not> (m_right + m_left < \<bar>cli_width c\<bar> \<and> m_top + m_bottom < \<bar>cli_height c\<bar>)"
  with assms have "\<exists>e. parse_args c = Inl e" by (rule parse_args_margin_error)
  then show "\<exists>e. main pf c w = (Some e, w)" using main_parse_error by blast
next
  fix a
  assume a: "parse_args c = Inr a"
  from parse_args_Inr [OF a] assms
  show "width a = \<bar>cli_width c\<bar>" "height a = \<bar>cli_height c\<bar>"
    "margin a = [m_top, m_right, m_bottom, m_left]"
    "m_right + m_left < width a" "m_top + m_bottom < height a"
    by auto
qed

theorem validation_before_effects_witness:
  "(\<forall>pf w. main pf \<lparr>cli_images = [''logo.png''], cli_height = 50, cli_width = - 20,
                      cli_margin = ''5,10'', cli_background = None, cli_output = ''cropped'',
                      cli_verbose = False, cli_debug = True, cli_greyscale = False,
                      cli_color = None\<rparr> w = (Some AssertionError, w))
   \<and> parse_args \<lparr>cli_images = [''logo.png''], cli_height = - 50, cli_width = - 21,
                   cli_margin = ''5,10'', cli_background = None, cli_output = ''cropped'',
                   cli_verbose = False, cli_debug = True, cli_greyscale = False,
                   cli_color = None\<rparr>
       = Inr \<lparr>images = [''logo.png''], height = 50, width = 21, margin = [5, 10, 5, 10],
              background = None, output_dir = ''cropped'', verbose = False,
              debug = True, greyscale = False, color = None\<rparr>"
proof -
  let ?c = "\<lparr>cli_images = [''logo.png''], cli_height = 50, cli_width = - 20,
             cli_margin = ''5,10'', cli_background = None, cli_output = ''cropped'',
             cli_verbose = False, cli_debug = True, cli_greyscale = False,
             cli_color = None\<rparr>"
  have m: "parse_margin (cli_margin ?c) = Inr [5, 10, 5, 10]" by code_simp
  have pa: "parse_args ?c = Inl AssertionError" by code_simp
  have "main pf ?c w = (Some AssertionError, w)" for pf w
  proof -
    from validation_before_effects [OF m, of pf w]
    obtain e where "main pf ?c w = (Some e, w)" by auto
    moreover have "main pf ?c w = (Some AssertionError, w)"
      using pa by (rule main_parse_error)
    ultimately show ?thesis by simp
  qed
  moreover
  have "parse_args \<lparr>cli_images = [''logo.png''], cli_height = - 50, cli_width = - 21,
                   cli_margin = ''5,10'', cli_background = None, cli_output = ''cropped'',
                   cli_verbose = False, cli_debug = True, cli_greyscale = False,
                   cli_color = None\<rparr>
       = Inr \<lparr>images = [''logo.png''], height = 50, width = 21, margin = [5, 10, 5, 10],
              background = None, output_dir = ''cropped'', verbose = False,
              debug = True, greyscale = False, color = None\<rparr>"
    by code_simp
  ultimately show ?thesis by blast
qed

subsection \<open>Placement and recolouring in the pipeline of one image\<close>

text \<open>
  What \<open>process_image\<close> has done when it returns a picture: every step of the loop body
  has succeeded, and the picture is the composite, over the background, of the layer
  on which the foreground was pasted.
\<close>

lemma process_image_Inr:
  assumes "process_image pf a img = Inr final"
  shows "\<exists>m_top m_right m_bottom m_left bounding_box resized rw rh probe bgc fg.
           margin a = [m_top, m_right, m_bottom, m_left]
         \<and> detect_bbox img = Inr bounding_box
         \<and> resize_to_fit_bounding_box pf (crop img bounding_box)
               (width a - m_left - m_right) (height a - m_top - m_bottom)
             = Inr (resized, rw, rh)
         \<and> getpixel img (3, 3) = Inr probe
         \<and> background_color (background a) probe = Inr bgc
         \<and> recolour (color a) resized = Inr fg
         \<and> final =
             (let canvas = (nat (width a), nat (height a));
                  logo_layer =
                    paste pf
                      (new_image canvas \<lparr>red = 128, green = 128, blue = 128, alpha = 0\<rparr>)
                      fg (paste_position a (m_top, m_right, m_bottom, m_left) rw rh);
                  composite = alpha_composite pf (new_image canvas bgc) logo_layer
              in if greyscale a then LA (convert_la pf composite) else RGBA composite)"
proof -
  from assms obtain bounding_box where bb: "detect_bbox img = Inr bounding_box"
    by (cases "detect_bbox img") (simp_all add: process_image_def)
  from assms bb obtain m_top m_right m_bottom m_left where
    m: "margin a = [m_top, m_right, m_bottom, m_left]"
    by (auto simp: process_image_def Let_def split: list.splits)
  let ?r = "resize_to_fit_bounding_box pf (crop img bounding_box)
              (width a - m_left - m_right) (height a - m_top - m_bottom)"
  from assms bb m obtain resized rw rh where r: "?r = Inr (resized, rw, rh)"
    by (cases ?r) (auto simp: process_image_def Let_def)
  from assms bb m r obtain probe where p: "getpixel img (3, 3) = Inr probe"
    by (cases "getpixel img (3, 3)") (simp_all add: process_image_def Let_def)
  from assms bb m r p obtain bgc where b: "background_color (background a) probe = Inr bgc"
    by (cases "background_color (background a) probe") (simp_all add: process_image_def Let_def)
  from assms bb m r p b obtain fg where f: "recolour (color a) resized = Inr fg"
    by (cases "recolour (color a) resized") (simp_all add: process_image_def Let_def)
  from assms bb m r p b f have
    "final =
       (let canvas = (nat (width a), nat (height a));
            logo_layer =
              paste pf
                (new_image canvas \<lparr>red = 128, green = 128, blue = 128, alpha = 0\<rparr>)
                fg (paste_position a (m_top, m_right, m_bottom, m_left) rw rh);
            composite = alpha_composite pf (new_image canvas bgc) logo_layer
        in if greyscale a then LA (convert_la pf composite) else RGBA composite)"
    by (simp add: process_image_def Let_def)
  with bb m r p b f show ?thesis by blast
qed

text \<open>The floor division of \<open>center_offset\<close>.\<close>

lemma center_offset_floor:
  "2 * (center_offset canvas_dim content_dim margin_near margin_far - margin_near)
     \<le> canvas_dim - margin_near - margin_far - content_dim
   \<and> canvas_dim - margin_near - margin_far - content_dim
     \<le> 2 * (center_offset canvas_dim content_dim margin_near margin_far - margin_near) + 1"
  by (simp add: center_offset_def) linarith

text \<open>
  C3. Whenever the pipeline of one image returns a picture, the picture is the
  composite of the layer on which the scaled (and possibly recoloured) foreground was
  pasted at the position whose two coordinates are the specification's
  \<open>center_offset\<close>: horizontally for the canvas width and the width \<open>rw\<close> that
  \<open>resize_to_fit_bounding_box\<close> returned, with the left margin near and the right
  margin far; vertically for the canvas height and the returned height \<open>rh\<close>, with the
  top margin near and the bottom margin far. Each offset is
  \<open>margin_near + (canvas_dim - margin_near - margin_far - content_dim) div 2\<close> with the
  floor division: twice its distance from the near margin is the free space, or the
  free space less one.
\<close>

theorem foreground_pasted_at_center_offset:
  assumes "process_image pf a img = Inr final"
  shows "\<exists>m_top m_right m_bottom m_left bounding_box resized rw rh probe bgc fg.
           margin a = [m_top, m_right, m_bottom, m_left]
         \<and> detect_bbox img = Inr bounding_box
         \<and> resize_to_fit_bounding_box pf (crop img bounding_box)
               (width a - m_left - m_right) (height a - m_top - m_bottom)
             = Inr (resized, rw, rh)
         \<and> getpixel img (3, 3) = Inr probe
         \<and> background_color (background a) probe = Inr bgc
         \<and> recolour (color a) resized = Inr fg
         \<and> final =
             (let canvas = (nat (width a), nat (height a));
                  logo_layer =
                    paste pf
                      (new_image canvas \<lparr>red = 128, green = 128, blue = 128, alpha = 0\<rparr>)
                      fg (center_offset (width a) rw m_left m_right,
                          center_offset (height a) rh m_top m_bottom);
                  composite = alpha_composite pf (new_image canvas bgc) logo_layer
              in if greyscale a then LA (convert_la pf composite) else RGBA composite)
         \<and> center_offset (width a) rw m_left m_right
             = m_left + (width a - m_left - m_right - rw) div 2
         \<and> center_offset (height a) rh m_top m_bottom
             = m_top + (height a - m_top - m_bottom - rh) div 2
         \<and> 2 * (center_offset (width a) rw m_left m_right - m_left)
             \<le> width a - m_left - m_right - rw
         \<and> width a - m_left - m_right - rw
             \<le> 2 * (center_offset (width a) rw m_left m_right - m_left) + 1
         \<and> 2 * (center_offset (height a) rh m_top m_bottom - m_top)
             \<le> height a - m_top - m_bottom - rh
         \<and> height a - m_top - m_bottom - rh
             \<le> 2 * (center_offset (height a) rh m_top m_bottom - m_top) + 1"
proof -
  from process_image_Inr [OF assms] obtain m_top m_right m_bottom m_left bounding_box
      resized rw rh probe bgc fg where
    m: "margin a = [m_top, m_right, m_bottom, m_left]"
    and bb: "detect_bbox img = Inr bounding_box"
    and r: "resize_to_fit_bounding_box pf (crop img bounding_box)
               (width a - m_left - m_right) (height a - m_top - m_bottom)
             = Inr (resized, rw, rh)"
    and p: "getpixel img (3, 3) = Inr probe"
    and b: "background_color (background a) probe = Inr bgc"
    and f: "recolour (color a) resized = Inr fg"
    and fin: "final =
             (let canvas = (nat (width a), nat (height a));
                  logo_layer =
                    paste pf
                      (new_image canvas \<lparr>red = 128, green = 128, blue = 128, alpha = 0\<rparr>)
                      fg (paste_position a (m_top, m_right, m_bottom, m_left) rw rh);
                  composite = alpha_composite pf (new_image canvas bgc) logo_layer
              in if greyscale a then LA (convert_la pf composite) else RGBA composite)"
    by blast
  have pos: "paste_position a (m_top, m_right, m_bottom, m_left) rw rh
             = (center_offset (width a) rw m_left m_right,
                center_offset (height a) rh m_top m_bottom)"
    by (simp add: paste_position_def center_offset_def)
  have fin': "final =
             (let canvas = (nat (width a), nat (height a));
                  logo_layer =
                    paste pf
                      (new_image canvas \<lparr>red = 128, green = 128, blue = 128, alpha = 0\<rparr>)
                      fg (center_offset (width a) rw m_left m_right,
                          center_offset (height a) rh m_top m_bottom);
                  composite = alpha_composite pf (new_image canvas bgc) logo_layer
              in if greyscale a then LA (convert_la pf composite) else RGBA composite)"
    using fin by (simp only: pos)
  have x: "center_offset (width a) rw m_left m_right
             = m_left + (width a - m_left - m_right - rw) div 2"
    and y: "center_offset (height a) rh m_top m_bottom
             = m_top + (height a - m_top - m_bottom - rh) div 2"
    by (simp_all add: center_offset_def)
  note fx = center_offset_floor [of "width a" rw m_left m_right]
  note fy = center_offset_floor [of "height a" rh m_top m_bottom]
  from m bb r p b f fin' x y fx fy show ?thesis by blast
qed

lemma uint_clip8: "0 \<le> v \<Longrightarrow> v \<le> 255 \<Longrightarrow> uint (clip8 v) = v"
  by (simp add: clip8_def uint_word_of_int take_bit_int_eq_self)

lemma recolour_channels:
  "recolour (Some (Channels [r, g, b])) resized
     = Inr \<lparr>img_size = img_size resized,
            pixels = (\<lambda>xy. \<lparr>red = clip8 r, green = clip8 g, blue = clip8 b,
                             alpha = alpha (pixels resized xy)\<rparr>)\<rparr>"
  by (simp add: recolour_def given_def bands_def merge_def point_def)

lemma recolour_not_given: "\<not> given c \<Longrightarrow> recolour c resized = Inr resized"
  by (simp add: recolour_def)

text \<open>
  C8. When a foreground colour is given (\<open>args.color\<close> is true after \<open>parse_args\<close>)
  and the pipeline of one image returns a picture, the foreground that it has pasted
  is the recoloured scaled foreground: it has the size of the image \<open>resized\<close> that
  \<open>resize_to_fit_bounding_box\<close> returned, each of its pixels has the three channels of
  the override as red, green and blue, and the alpha of the pixel of \<open>resized\<close> at the
  same place.
\<close>

theorem pasted_foreground_is_recoloured:
  assumes "parse_args c = Inr a" and "given (color a)"
    and "process_image pf a img = Inr final"
  shows "\<exists>r g b m_top m_right m_bottom m_left bounding_box resized rw rh probe bgc fg.
           color a = Some (Channels [r, g, b])
         \<and> margin a = [m_top, m_right, m_bottom, m_left]
         \<and> detect_bbox img = Inr bounding_box
         \<and> resize_to_fit_bounding_box pf (crop img bounding_box)
               (width a - m_left - m_right) (height a - m_top - m_bottom)
             = Inr (resized, rw, rh)
         \<and> getpixel img (3, 3) = Inr probe
         \<and> background_color (background a) probe = Inr bgc
         \<and> img_size fg = img_size resized
         \<and> (\<forall>xy. uint (red (pixels fg xy)) = r \<and> uint (green (pixels fg xy)) = g
                \<and> uint (blue (pixels fg xy)) = b
                \<and> alpha (pixels fg xy) = alpha (pixels resized xy))
         \<and> final =
             (let canvas = (nat (width a), nat (height a));
                  logo_layer =
                    paste pf
                      (new_image canvas \<lparr>red = 128, green = 128, blue = 128, alpha = 0\<rparr>)
                      fg (paste_position a (m_top, m_right, m_bottom, m_left) rw rh);
                  composite = alpha_composite pf (new_image canvas bgc) logo_layer
              in if greyscale a then LA (convert_la pf composite) else RGBA composite)"
proof -
  from parse_args_Inr [OF assms(1)] have "parse_colour (cli_color c) = Inr (color a)"
    by blast
  from parse_colour_Inr_cases [OF this] assms(2) obtain r g b
    where col: "color a = Some (Channels [r, g, b])"
      and rng: "0 \<le> r" "r \<le> 255" "0 \<le> g" "g \<le> 255" "0 \<le> b" "b \<le> 255"
    by (auto simp: given_def)
  from process_image_Inr [OF assms(3)] obtain m_top m_right m_bottom m_left bounding_box
      resized rw rh probe bgc fg where
    m: "margin a = [m_top, m_right, m_bottom, m_left]"
    and bb: "detect_bbox img = Inr bounding_box"
    and rs: "resize_to_fit_bounding_box pf (crop img bounding_box)
               (width a - m_left - m_right) (height a - m_top - m_bottom)
             = Inr (resized, rw, rh)"
    and p: "getpixel img (3, 3) = Inr probe"
    and bg: "background_color (background a) probe = Inr bgc"
    and f: "recolour (color a) resized = Inr fg"
    and fin: "final =
             (let canvas = (nat (width a), nat (height a));
                  logo_layer =
                    paste pf
                      (new_image canvas \<lparr>red = 128, green = 128, blue = 128, alpha = 0\<rparr>)
                      fg (paste_position a (m_top, m_right, m_bottom, m_left) rw rh);
                  composite = alpha_composite pf (new_image canvas bgc) logo_layer
              in if greyscale a then LA (convert_la pf composite) else RGBA composite)"
    by blast
  from f have fg: "fg = \<lparr>img_size = img_size resized,
              pixels = (\<lambda>xy. \<lparr>red = clip8 r, green = clip8 g, blue = clip8 b,
                               alpha = alpha (pixels resized xy)\<rparr>)\<rparr>"
    by (simp add: col recolour_channels)
  have sz: "img_size fg = img_size resized" by (simp add: fg)
  have px: "\<forall>xy. uint (red (pixels fg xy)) = r \<and> uint (green (pixels fg xy)) = g
                \<and> uint (blue (pixels fg xy)) = b
                \<and> alpha (pixels fg xy) = alpha (pixels resized xy)"
    using rng by (simp add: fg uint_clip8)
  from col m bb rs p bg sz px fin show ?thesis by blast
qed

subsection \<open>The bounding box\<close>

lemma sorted_hd_least: "sorted xs \<Longrightarrow> x \<in> set xs \<Longrightarrow> hd xs \<le> (x::nat)"
  by (cases xs) auto

lemma sorted_last_greatest: "sorted xs \<Longrightarrow> x \<in> set xs \<Longrightarrow> (x::nat) \<le> last xs"
proof (induction xs)
  case Nil
  then show ?case by simp
next
  case (Cons y ys)
  then show ?case by (cases "ys = []") auto
qed

lemma filter_upt_bounds:
  assumes "x < n" and "P x"
  shows "filter P [0..<n] \<noteq> []"
    and "hd (filter P [0..<n]) \<le> x" and "x \<le> last (filter P [0..<n])"
proof -
  from assms have mem: "x \<in> set (filter P [0..<n])" by simp
  from assms show "filter P [0..<n] \<noteq> []" by (auto simp: filter_empty_conv)
  have "sorted (filter P [0..<n])" by (simp add: sorted_wrt_filter)
  with mem show "hd (filter P [0..<n]) \<le> x" "x \<le> last (filter P [0..<n])"
    by (simp_all add: sorted_hd_least sorted_last_greatest)
qed

lemma filter_upt_ends:
  assumes "filter P [0..<n] \<noteq> []"
  shows "P (hd (filter P [0..<n])) \<and> hd (filter P [0..<n]) < n"
    and "P (last (filter P [0..<n])) \<and> last (filter P [0..<n]) < n"
proof -
  from assms have "hd (filter P [0..<n]) \<in> set (filter P [0..<n])" by (rule hd_in_set)
  then show "P (hd (filter P [0..<n])) \<and> hd (filter P [0..<n]) < n" by simp
  from assms have "last (filter P [0..<n]) \<in> set (filter P [0..<n])" by (rule last_in_set)
  then show "P (last (filter P [0..<n])) \<and> last (filter P [0..<n]) < n" by simp
qed

text \<open>
  What \<open>getbbox\<close> returns: \<open>None\<close> exactly when no pixel of the image has content;
  otherwise a box that holds every pixel with content and that has a pixel with content
  in its first and last column and in its first and last row.
\<close>

lemma getbbox_None:
  assumes "getbbox content img = None"
    and "x < fst (img_size img)" and "y < snd (img_size img)"
  shows "\<not> content (pixels img (x, y))"
proof
  assume c: "content (pixels img (x, y))"
  let ?w = "fst (img_size img)" and ?h = "snd (img_size img)"
  let ?P = "\<lambda>x. list_ex (\<lambda>y. content (pixels img (x, y))) [0..<?h]"
  let ?Q = "\<lambda>y. list_ex (\<lambda>x. content (pixels img (x, y))) [0..<?w]"
  from c assms(2,3) have "?P x" "?Q y" by (auto simp: list_ex_iff)
  with assms(2,3) have "filter ?P [0..<?w] \<noteq> []" "filter ?Q [0..<?h] \<noteq> []"
    using filter_upt_bounds(1) [of x ?w ?P] filter_upt_bounds(1) [of y ?h ?Q] by blast+
  with assms(1) show False by (simp add: getbbox_def Let_def)
qed

lemma getbbox_Some:
  assumes "getbbox content img = Some (l, t, r, b)"
  shows "\<forall>x y. x < fst (img_size img) \<and> y < snd (img_size img)
                \<and> content (pixels img (x, y))
             \<longrightarrow> l \<le> int x \<and> int x < r \<and> t \<le> int y \<and> int y < b"
    and "\<exists>y. y < snd (img_size img) \<and> content (pixels img (nat l, y))"
    and "\<exists>y. y < snd (img_size img) \<and> content (pixels img (nat (r - 1), y))"
    and "\<exists>x. x < fst (img_size img) \<and> content (pixels img (x, nat t))"
    and "\<exists>x. x < fst (img_size img) \<and> content (pixels img (x, nat (b - 1)))"
    and "0 \<le> l" and "l < r" and "r \<le> int (fst (img_size img))"
    and "0 \<le> t" and "t < b" and "b \<le> int (snd (img_size img))"
proof -
  let ?w = "fst (img_size img)" and ?h = "snd (img_size img)"
  let ?P = "\<lambda>x. list_ex (\<lambda>y. content (pixels img (x, y))) [0..<?h]"
  let ?Q = "\<lambda>y. list_ex (\<lambda>x. content (pixels img (x, y))) [0..<?w]"
  let ?cols = "filter ?P [0..<?w]" and ?rws = "filter ?Q [0..<?h]"
  from assms have ne: "?cols \<noteq> []" "?rws \<noteq> []"
    by (auto simp: getbbox_def Let_def split: if_splits)
  with assms have box: "l = int (hd ?cols)" "t = int (hd ?rws)"
    "r = int (last ?cols) + 1" "b = int (last ?rws) + 1"
    by (auto simp: getbbox_def Let_def split: if_splits)
  show "\<forall>x y. x < ?w \<and> y < ?h \<and> content (pixels img (x, y))
             \<longrightarrow> l \<le> int x \<and> int x < r \<and> t \<le> int y \<and> int y < b"
  proof (intro allI impI)
    fix x y
    assume xy: "x < ?w \<and> y < ?h \<and> content (pixels img (x, y))"
    then have "?P x" "?Q y" by (auto simp: list_ex_iff)
    with xy have "hd ?cols \<le> x" "x \<le> last ?cols" "hd ?rws \<le> y" "y \<le> last ?rws"
      using filter_upt_bounds(2,3) [of x ?w ?P] filter_upt_bounds(2,3) [of y ?h ?Q]
      by blast+
    then show "l \<le> int x \<and> int x < r \<and> t \<le> int y \<and> int y < b"
      by (simp add: box)
  qed
  from filter_upt_ends [OF ne(1)] have c: "?P (hd ?cols)" "hd ?cols < ?w"
    "?P (last ?cols)" "last ?cols < ?w" by blast+
  from filter_upt_ends [OF ne(2)] have rw: "?Q (hd ?rws)" "hd ?rws < ?h"
    "?Q (last ?rws)" "last ?rws < ?h" by blast+
  from c(1) show "\<exists>y. y < ?h \<and> content (pixels img (nat l, y))"
    by (auto simp: box list_ex_iff)
  from c(3) show "\<exists>y. y < ?h \<and> content (pixels img (nat (r - 1), y))"
    by (auto simp: box list_ex_iff)
  from rw(1) show "\<exists>x. x < ?w \<and> content (pixels img (x, nat t))"
    by (auto simp: box list_ex_iff)
  from rw(3) show "\<exists>x. x < ?w \<and> content (pixels img (x, nat (b - 1)))"
    by (auto simp: box list_ex_iff)
  have "hd ?cols \<le> last ?cols"
    using filter_upt_bounds(3) [of "hd ?cols" ?w ?P] c(1,2) by blast
  moreover have "hd ?rws \<le> last ?rws"
    using filter_upt_bounds(3) [of "hd ?rws" ?h ?Q] rw(1,2) by blast
  ultimately show "0 \<le> l" "l < r" "r \<le> int ?w" "0 \<le> t" "t < b" "b \<le> int ?h"
    using c(4) rw(4) by (simp_all add: box)
qed

text \<open>
  C4. For a decoded image whose pixel \<open>(3, 3)\<close> is fully transparent, the bounding box
  is what \<open>getbbox\<close> returns for "alpha is not 0": nothing when every pixel is
  transparent, and otherwise the smallest box that holds every pixel whose alpha is not
  0 (it holds them all, and every box that holds them all holds it). A box
  \<open>(l, t, r, b)\<close> holds the pixels \<open>(x, y)\<close> with \<open>l \<le> x < r\<close> and \<open>t \<le> y < b\<close>.
\<close>

theorem transparent_probe_bbox:
  assumes "getpixel img (3, 3) = Inr probe" and "alpha probe = 0"
  shows "\<exists>bx. detect_bbox img = Inr bx \<and>
          (case bx of
             None \<Rightarrow>
               (\<forall>x y. x < fst (img_size img) \<and> y < snd (img_size img)
                   \<longrightarrow> alpha (pixels img (x, y)) = 0)
           | Some (l, t, r, b) \<Rightarrow>
               (\<forall>x y. x < fst (img_size img) \<and> y < snd (img_size img)
                      \<and> alpha (pixels img (x, y)) \<noteq> 0
                   \<longrightarrow> l \<le> int x \<and> int x < r \<and> t \<le> int y \<and> int y < b)
               \<and> (\<forall>l' t' r' b'.
                     (\<forall>x y. x < fst (img_size img) \<and> y < snd (img_size img)
                            \<and> alpha (pixels img (x, y)) \<noteq> 0
                         \<longrightarrow> l' \<le> int x \<and> int x < r' \<and> t' \<le> int y \<and> int y < b')
                     \<longrightarrow> l' \<le> l \<and> t' \<le> t \<and> r \<le> r' \<and> b \<le> b'))"
proof -
  let ?c = "\<lambda>p::rgba. alpha p \<noteq> 0"
  from assms have det: "detect_bbox img = Inr (getbbox ?c img)"
    by (simp add: detect_bbox_def)
  show ?thesis
  proof (cases "getbbox ?c img")
    case None
    from getbbox_None [OF None] det None show ?thesis by auto
  next
    case (Some bx)
    obtain l t r b where bx: "bx = (l, t, r, b)" by (cases bx) auto
    note g = getbbox_Some [OF Some [unfolded bx]]
    have small: "l' \<le> l \<and> t' \<le> t \<and> r \<le> r' \<and> b \<le> b'"
      if h: "\<forall>x y. x < fst (img_size img) \<and> y < snd (img_size img)
                   \<and> alpha (pixels img (x, y)) \<noteq> 0
                \<longrightarrow> l' \<le> int x \<and> int x < r' \<and> t' \<le> int y \<and> int y < b'"
      for l' t' r' b'
    proof -
      from g(2) g(6,7,8) obtain y1 where "y1 < snd (img_size img)"
        "alpha (pixels img (nat l, y1)) \<noteq> 0" "nat l < fst (img_size img)" by auto
      with h have "l' \<le> int (nat l)" by blast
      moreover
      from g(3) g(6,7,8) obtain y2 where "y2 < snd (img_size img)"
        "alpha (pixels img (nat (r - 1), y2)) \<noteq> 0" "nat (r - 1) < fst (img_size img)"
        by auto
      with h have "int (nat (r - 1)) < r'" by blast
      moreover
      from g(4) g(9,10,11) obtain x1 where "x1 < fst (img_size img)"
        "alpha (pixels img (x1, nat t)) \<noteq> 0" "nat t < snd (img_size img)" by auto
      with h have "t' \<le> int (nat t)" by blast
      moreover
      from g(5) g(9,10,11) obtain x2 where "x2 < fst (img_size img)"
        "alpha (pixels img (x2, nat (b - 1))) \<noteq> 0" "nat (b - 1) < snd (img_size img)"
        by auto
      with h have "int (nat (b - 1)) < b'" by blast
      ultimately show ?thesis using g(6,7,9,10) by simp
    qed
    from g(1) small det Some bx show ?thesis by simp
  qed
qed

theorem transparent_probe_bbox_witness:
  "detect_bbox example_logo = Inr (Some (10, 10, 30, 30))"
proof -
  have p: "getpixel example_logo (3, 3) = Inr \<lparr>red = 0, green = 0, blue = 0, alpha = 0\<rparr>"
    by (simp add: getpixel_def example_logo_def)
  have z: "alpha \<lparr>red = 0, green = 0, blue = 0, alpha = 0 :: byte\<rparr> = 0" by simp
  from transparent_probe_bbox [OF p z]
  obtain bx where "detect_bbox example_logo = Inr bx" by blast
  moreover have "detect_bbox example_logo = Inr (getbbox (\<lambda>p. alpha p \<noteq> 0) example_logo)"
    using p by (simp add: detect_bbox_def)
  moreover have "getbbox (\<lambda>p. alpha p \<noteq> 0) example_logo = Some (10, 10, 30, 30)"
    by code_simp
  ultimately show ?thesis by simp
qed

subsection \<open>The loop over the input paths\<close>

lemma process_all_append:
  "process_all pf a (ps @ qs) w =
     (case process_all pf a ps w of
        (Some e, w1) \<Rightarrow> (Some e, w1)
      | (None, w1) \<Rightarrow> process_all pf a qs w1)"
  by (induction ps arbitrary: w) (auto split: prod.splits option.splits)





subsection \<open>Rounding to binary64\<close>

lemma pow2_powi: "pow2 e = 2 powi e"
  by (simp add: pow2_def power_int_def power_one_over inverse_eq_divide)

lemma pow2_pos: "0 < pow2 e"
  by (simp add: pow2_powi)

lemma pow2_add: "pow2 (a + b) = pow2 a * pow2 b"
  by (simp add: pow2_powi power_int_add)

lemma pow2_mono: "a \<le> b \<Longrightarrow> pow2 a \<le> pow2 b"
  by (simp add: pow2_powi power_int_increasing)

lemma pow2_strict_mono: "a < b \<Longrightarrow> pow2 a < pow2 b"
  by (simp add: pow2_powi power_int_strict_increasing)

lemma pow2_less_iff: "pow2 a < pow2 b \<longleftrightarrow> a < b"
  by (metis pow2_strict_mono pow2_mono not_less)

lemma pow2_nat: "pow2 (int n) = 2 ^ n"
  by (simp add: pow2_def)

lemma pow2_neg: "pow2 (- int n) = 1 / 2 ^ n"
  by (simp add: pow2_powi power_int_minus inverse_eq_divide)

lemma ilog2_bounds:
  assumes "0 < x"
  shows "pow2 (ilog2 x) \<le> x \<and> x < pow2 (ilog2 x + 1)"
proof -
  obtain a b where q: "quotient_of x = (a, b)" by (cases "quotient_of x")
  then have b: "0 < b" and x: "x = of_int a / of_int b"
    by (simp_all add: quotient_of_denom_pos quotient_of_div)
  with assms have a: "0 < a" by (simp add: zero_less_divide_iff)
  define la lb where "la = bitlen a" and "lb = bitlen b"
  from bitlen_bounds [OF a] bitlen_bounds [OF b]
  have ba: "2 ^ nat (la - 1) \<le> a" "a < 2 ^ nat la"
    and bb: "2 ^ nat (lb - 1) \<le> b" "b < 2 ^ nat lb"
    by (simp_all add: la_def lb_def)
  have pos: "1 \<le> la" "1 \<le> lb"
    using a b by (simp_all add: la_def lb_def bitlen_alt_def)
  have p2: "pow2 (la - 1) = 2 ^ nat (la - 1)" "pow2 la = 2 ^ nat la"
    "pow2 (lb - 1) = 2 ^ nat (lb - 1)" "pow2 lb = 2 ^ nat lb"
    using pos by (simp_all add: pow2_def)
  have cast: "(of_int (2 ^ n) :: rat) = 2 ^ n" for n by simp
  have ra: "pow2 (la - 1) \<le> of_int a" "of_int a < pow2 la"
    using ba [folded of_int_le_iff [where 'a = rat] of_int_less_iff [where 'a = rat]]
    by (simp_all only: p2 cast)
  have rb: "pow2 (lb - 1) \<le> of_int b" "of_int b < pow2 lb"
    using bb [folded of_int_le_iff [where 'a = rat] of_int_less_iff [where 'a = rat]]
    by (simp_all only: p2 cast)
  have bpos: "(0::rat) < of_int b" using b by simp
  define d where "d = la - lb"
  have up: "x < pow2 (d + 1)"
  proof -
    have "of_int a < pow2 la" by (rule ra(2))
    also have "pow2 la = pow2 (d + 1) * pow2 (lb - 1)"
      by (simp add: d_def flip: pow2_add)
    also have "\<dots> \<le> pow2 (d + 1) * of_int b"
      using rb(1) pow2_pos [of "d + 1"] by (simp add: mult_left_mono)
    finally show ?thesis using bpos by (simp add: x pos_divide_less_eq)
  qed
  have low: "pow2 (d - 1) < x"
  proof -
    have "pow2 (d - 1) * of_int b < pow2 (d - 1) * pow2 lb"
      using rb(2) pow2_pos [of "d - 1"] by (simp add: mult_strict_left_mono)
    also have "\<dots> = pow2 (la - 1)"
      by (simp add: d_def flip: pow2_add)
    also have "\<dots> \<le> of_int a" by (rule ra(1))
    finally show ?thesis using bpos by (simp add: x pos_less_divide_eq)
  qed
  have il: "ilog2 x = (if pow2 d \<le> x then d else d - 1)"
    by (simp add: ilog2_def q d_def la_def lb_def Let_def)
  show ?thesis
  proof (cases "pow2 d \<le> x")
    case True
    with il up show ?thesis by simp
  next
    case False
    with il low show ?thesis by simp
  qed
qed

lemma ilog2_unique:
  assumes "pow2 e \<le> x" and "x < pow2 (e + 1)"
  shows "ilog2 x = e"
proof -
  from assms(1) pow2_pos [of e] have "0 < x" by simp
  from ilog2_bounds [OF this] have b: "pow2 (ilog2 x) \<le> x" "x < pow2 (ilog2 x + 1)"
    by simp_all
  from b(1) assms(2) have "pow2 (ilog2 x) < pow2 (e + 1)" by simp
  then have "ilog2 x < e + 1" by (simp add: pow2_less_iff)
  moreover from assms(1) b(2) have "pow2 e < pow2 (ilog2 x + 1)" by simp
  then have "e < ilog2 x + 1" by (simp add: pow2_less_iff)
  ultimately show ?thesis by simp
qed

lemma round_half_even_near: "\<bar>of_int (round_half_even q) - q\<bar> \<le> 1 / 2"
proof -
  have "of_int \<lfloor>q\<rfloor> \<le> q" "q < of_int \<lfloor>q\<rfloor> + 1" by linarith+
  then show ?thesis
    by (auto simp: round_half_even_def Let_def abs_le_iff)
qed

lemma round_half_even_unique:
  assumes "\<bar>q - of_int m\<bar> < 1 / 2"
  shows "round_half_even q = m"
proof -
  have f: "of_int \<lfloor>q\<rfloor> \<le> q" "q < of_int \<lfloor>q\<rfloor> + 1" by linarith+
  from round_half_even_near [of q] assms
  have "\<bar>(of_int (round_half_even q) :: rat) - of_int m\<bar> < 1" by linarith
  then have "\<bar>round_half_even q - m\<bar> < 1"
    by (metis of_int_diff of_int_abs of_int_less_iff of_int_1)
  then show ?thesis by simp
qed

lemma round_half_even_int [simp]: "round_half_even (of_int m) = m"
  by (rule round_half_even_unique) simp


lemma ulp_normal:
  assumes "pow2 e \<le> x" and "x < pow2 (e + 1)" and "- 1022 \<le> e"
  shows "ulp x = pow2 (e - 52)"
proof -
  from assms(1) pow2_pos [of e] have "0 < x" by simp
  then have "\<bar>x\<bar> = x" by simp
  with ilog2_unique [OF assms(1,2)] assms(3) show ?thesis
    by (simp add: ulp_def max_def)
qed

lemma round_double_normal:
  assumes "pow2 e \<le> x" and "x < pow2 (e + 1)" and "- 1022 \<le> e"
  shows "round_double x = of_int (round_half_even (x / pow2 (e - 52))) * pow2 (e - 52)"
proof -
  from assms(1) pow2_pos [of e] have "0 < x" by simp
  then show ?thesis
    by (simp add: round_double_def ulp_normal [OF assms])
qed

text \<open>Evaluating a rounding: the exponent and the rounded significand are given.\<close>

lemma round_double_eval:
  assumes "pow2 e \<le> x" and "x < pow2 (e + 1)" and "- 1022 \<le> e"
    and "\<bar>x / pow2 (e - 52) - of_int m\<bar> < 1 / 2"
  shows "round_double x = of_int m * pow2 (e - 52)"
  by (simp add: round_double_normal [OF assms(1-3)] round_half_even_unique [OF assms(4)])

lemma round_double_rel:
  assumes "pow2 (- 1022) \<le> x"
  shows "\<bar>round_double x - x\<bar> \<le> x / 2 ^ 53"
proof -
  from assms pow2_pos [of "- 1022"] have x: "0 < x" by simp
  define e where "e = ilog2 x"
  from ilog2_bounds [OF x] have b: "pow2 e \<le> x" "x < pow2 (e + 1)"
    by (simp_all add: e_def)
  from assms b(2) have "pow2 (- 1022) < pow2 (e + 1)" by simp
  then have e: "- 1022 \<le> e" by (simp add: pow2_less_iff)
  define u where "u = pow2 (e - 52)"
  have u: "0 < u" by (simp add: u_def pow2_pos)
  have rd: "round_double x = of_int (round_half_even (x / u)) * u"
    unfolding u_def by (rule round_double_normal [OF b e])
  have "\<bar>of_int (round_half_even (x / u)) - x / u\<bar> \<le> 1 / 2"
    by (rule round_half_even_near)
  then have "\<bar>of_int (round_half_even (x / u)) - x / u\<bar> * u \<le> 1 / 2 * u"
    using u by (simp add: mult_right_mono)
  moreover have "\<bar>of_int (round_half_even (x / u)) - x / u\<bar> * u
                 = \<bar>of_int (round_half_even (x / u)) * u - x\<bar>"
  proof -
    have "\<bar>of_int (round_half_even (x / u)) - x / u\<bar> * u
          = \<bar>(of_int (round_half_even (x / u)) - x / u) * u\<bar>"
      using u by (simp add: abs_mult)
    also have "(of_int (round_half_even (x / u)) - x / u) * u
               = of_int (round_half_even (x / u)) * u - x"
      using u by (simp add: left_diff_distrib)
    finally show ?thesis .
  qed
  ultimately have near: "\<bar>round_double x - x\<bar> \<le> u / 2" by (simp add: rd)
  have "u = pow2 e * pow2 (- 52)" by (simp add: u_def flip: pow2_add)
  also have "pow2 (- 52) = 1 / 2 ^ 52" using pow2_neg [of 52] by simp
  finally have "u = pow2 e / 2 ^ 52" by simp
  with b(1) have "u \<le> x / 2 ^ 52" by (simp add: divide_right_mono)
  then have "u / 2 \<le> x / 2 ^ 53" by simp
  with near show ?thesis by linarith
qed

lemma round_double_int:
  assumes "\<bar>n\<bar> < 2 ^ 53"
  shows "round_double (of_int n) = of_int n"
proof (cases "n = 0")
  case True
  then show ?thesis by (simp add: round_double_def)
next
  case False
  define k where "k = \<bar>n\<bar>"
  from False have k: "1 \<le> k" "k < 2 ^ 53" using assms by (simp_all add: k_def)
  define x :: rat where "x = of_int k"
  have p53: "pow2 53 = 2 ^ 53" "pow2 0 = 1" by (simp_all add: pow2_def)
  have x: "0 < x" "pow2 0 \<le> x" "x < pow2 53"
    using k by (simp_all add: x_def p53)
  define e where "e = ilog2 x"
  from ilog2_bounds [OF x(1)] have b: "pow2 e \<le> x" "x < pow2 (e + 1)"
    by (simp_all add: e_def)
  from b(1) x(3) have "pow2 e < pow2 53" by simp
  then have e53: "e < 53" by (simp add: pow2_less_iff)
  from x(2) b(2) have "pow2 0 < pow2 (e + 1)" by simp
  then have e0: "0 \<le> e" by (simp add: pow2_less_iff)
  define j where "j = nat (52 - e)"
  have pj: "pow2 (e - 52) = 1 / 2 ^ j"
    using pow2_neg [of j] e53 by (simp add: j_def)
  have eq: "x / pow2 (e - 52) = of_int (k * 2 ^ j)" by (simp add: pj x_def)
  have "round_half_even (x / pow2 (e - 52)) = k * 2 ^ j"
    unfolding eq by (rule round_half_even_int)
  with round_double_normal [OF b] e0 have "round_double x = of_int (k * 2 ^ j) * pow2 (e - 52)"
    by simp
  then have rx: "round_double x = x" by (simp add: pj x_def)
  have ax: "\<bar>(of_int n :: rat)\<bar> = x" by (simp add: x_def k_def)
  have "ulp (of_int n) = ulp x" by (simp add: ulp_def ax x(1) abs_of_pos)
  then have "round_double (of_int n) = sgn (of_int n) * round_double x"
    using False x(1) by (simp add: round_double_def ax abs_of_pos)
  also have "\<dots> = sgn (of_int n) * \<bar>(of_int n :: rat)\<bar>" by (simp only: rx ax)
  also have "\<dots> = of_int n" by (rule mult_sgn_abs)
  finally show ?thesis .
qed

lemma not_overflows: "\<bar>y\<bar> < 2 ^ 80 \<Longrightarrow> \<not> overflows y"
proof -
  assume "\<bar>y\<bar> < 2 ^ 80"
  moreover have "(2::rat) ^ 80 \<le> 2 ^ 1024" by (rule power_increasing) simp_all
  ultimately show ?thesis by (simp add: overflows_def)
qed

lemma small_is_normal: "1 / 2 ^ 80 \<le> x \<Longrightarrow> pow2 (- 1022) \<le> x"
proof -
  assume "1 / 2 ^ 80 \<le> x"
  moreover have "pow2 (- 1022) \<le> pow2 (- 80)" by (rule pow2_mono) simp
  moreover have "pow2 (- 80) = 1 / 2 ^ 80" using pow2_neg [of 80] by simp
  ultimately show ?thesis by simp
qed

text \<open>The quotient of two positive integers below \<open>2 ^ 25\<close>.\<close>

lemma quotient_range:
  assumes "0 < a" "a < 2 ^ 25" "0 < b" "b < 2 ^ 25"
  shows "1 / 2 ^ 25 < (of_int a / of_int b :: rat)" and "(of_int a / of_int b :: rat) < 2 ^ 25"
proof -
  have a: "(1::rat) \<le> of_int a" "(of_int a :: rat) < 2 ^ 25" using assms by simp_all
  have b: "(1::rat) \<le> of_int b" "(of_int b :: rat) < 2 ^ 25" using assms by simp_all
  have "(2::rat) ^ 25 * 1 \<le> 2 ^ 25 * of_int a"
    using a(1) by (intro mult_left_mono) simp_all
  with b(2) have "(of_int b :: rat) < 2 ^ 25 * of_int a" by simp
  then show "1 / 2 ^ 25 < (of_int a / of_int b :: rat)"
    using b(1) by (simp add: field_simps)
  have "(2::rat) ^ 25 * 1 \<le> 2 ^ 25 * of_int b"
    using b(1) by (intro mult_left_mono) simp_all
  with a(2) have "(of_int a :: rat) < 2 ^ 25 * of_int b" by simp
  then show "(of_int a / of_int b :: rat) < 2 ^ 25"
    using b(1) by (simp add: field_simps)
qed

lemma true_div_pos:
  assumes "0 < a" "a < 2 ^ 25" "0 < b" "b < 2 ^ 25"
  shows "true_div a b = Inr (round_double (of_int a / of_int b))"
    and "\<bar>round_double (of_int a / of_int b) - of_int a / of_int b\<bar>
           \<le> (of_int a / of_int b) / 2 ^ 53"
proof -
  define x :: rat where "x = of_int a / of_int b"
  from quotient_range [OF assms] have x: "1 / 2 ^ 25 < x" "x < 2 ^ 25" by (simp_all add: x_def)
  have "(1::rat) / 2 ^ 80 \<le> 1 / 2 ^ 25" by (simp add: field_simps)
  with x(1) have "pow2 (- 1022) \<le> x" by (intro small_is_normal) simp
  from round_double_rel [OF this] have rel: "\<bar>round_double x - x\<bar> \<le> x / 2 ^ 53" .
  then show "\<bar>round_double (of_int a / of_int b) - of_int a / of_int b\<bar>
           \<le> (of_int a / of_int b) / 2 ^ 53" by (simp add: x_def)
  have "0 < x" using x(1) by (simp add: field_simps less_trans [OF _ x(1)])
  then have "x / 2 ^ 53 \<le> x" by (simp add: field_simps)
  with rel have "\<bar>round_double x - x\<bar> \<le> x" by linarith
  with x(2) have "\<bar>round_double x\<bar> < 2 * 2 ^ 25" by linarith
  then have "\<bar>round_double x\<bar> < 2 ^ 26" by simp
  moreover have "(2::rat) ^ 26 \<le> 2 ^ 80" by (rule power_increasing) simp_all
  ultimately have "\<not> overflows (round_double x)" by (intro not_overflows) simp
  with assms(3) show "true_div a b = Inr (round_double (of_int a / of_int b))"
    by (simp add: true_div_def x_def)
qed


lemma to_float_small: "\<bar>n\<bar> < 2 ^ 25 \<Longrightarrow> to_float n = Inr (of_int n)"
proof -
  assume n: "\<bar>n\<bar> < 2 ^ 25"
  have "(2::int) ^ 25 \<le> 2 ^ 53" by (rule power_increasing) simp_all
  with n have "\<bar>n\<bar> < 2 ^ 53" by linarith
  then have rd: "round_double (of_int n) = of_int n" by (rule round_double_int)
  from n have "\<bar>(of_int n :: rat)\<bar> < 2 ^ 25"
    by (metis of_int_abs of_int_less_numeral_power_cancel_iff)
  moreover have "(2::rat) ^ 25 \<le> 2 ^ 80" by (rule power_increasing) simp_all
  ultimately have "\<not> overflows (of_int n)" by (intro not_overflows) simp
  with rd show ?thesis by (simp add: to_float_def)
qed

text \<open>
  \<open>scaled a b c\<close> is \<open>int(a / b * c)\<close>. For positive integers below \<open>2 ^ 25\<close> it is
  the floor of a float \<open>z\<close> within \<open>3 / 2 ^ 53\<close>, relatively, of the exact \<open>a * c / b\<close>.
\<close>

lemma scaled_close:
  assumes "0 < a" "a < 2 ^ 25" "0 < b" "b < 2 ^ 25" "0 < c" "c < 2 ^ 25"
  shows "\<exists>z::rat. scaled a b c = Inr \<lfloor>z\<rfloor>
           \<and> \<bar>z - of_int (a * c) / of_int b\<bar> \<le> of_int (a * c) / of_int b * (3 / 2 ^ 53)"
proof -
  define x :: rat where "x = of_int a / of_int b"
  define r where "r = round_double x"
  define u :: rat where "u = 1 / 2 ^ 53"
  define k :: rat where "k = of_int c"
  from quotient_range [OF assms(1-4)] have x: "1 / 2 ^ 25 < x" "x < 2 ^ 25"
    by (simp_all add: x_def)
  then have x0: "0 < x" by (simp add: field_simps less_trans [OF _ x(1)])
  from true_div_pos [OF assms(1-4)]
  have td: "true_div a b = Inr r" and rel: "\<bar>r - x\<bar> \<le> x * u"
    by (simp_all add: r_def x_def u_def)
  have u: "0 < u" "u \<le> 1 / 2" "u * u \<le> u" by (simp_all add: u_def)
  have k: "1 \<le> k" "k < 2 ^ 25" using assms(5,6) by (simp_all add: k_def)
  from assms(5,6) have tf: "to_float c = Inr k" by (simp add: to_float_small k_def)
  have xu: "x * u \<le> x / 2" using x0 u(2) by (simp add: field_simps)
  with rel have r: "x / 2 \<le> r" "r \<le> 2 * x" by linarith+
  define p where "p = r * k"
  have p_low: "1 / 2 ^ 80 \<le> p"
  proof -
    have "(1::rat) / 2 ^ 80 \<le> 1 / 2 ^ 26" by (simp add: field_simps)
    also have "\<dots> \<le> x / 2" using x(1) by simp
    also have "\<dots> \<le> r" by (rule r(1))
    also have "r = r * 1" by simp
    also have "\<dots> \<le> r * k" using k(1) r(1) x0 by (intro mult_left_mono) simp_all
    finally show ?thesis by (simp add: p_def)
  qed
  have p_up: "p < 2 ^ 51"
  proof -
    have "r * k \<le> (2 * x) * k" using r(2) k(1) by (intro mult_right_mono) simp_all
    also have "\<dots> \<le> (2 * 2 ^ 25) * k" using x(2) k(1) by (intro mult_right_mono) simp_all
    also have "\<dots> < (2 * 2 ^ 25) * 2 ^ 25" using k(2) by (intro mult_strict_left_mono) simp_all
    finally show ?thesis by (simp add: p_def)
  qed
  define z where "z = round_double p"
  from round_double_rel [OF small_is_normal [OF p_low]]
  have zrel: "\<bar>z - p\<bar> \<le> p * u" by (simp add: z_def u_def)
  have p0: "0 < p" using p_low by (simp add: less_le_trans [OF _ p_low])
  have pu: "p * u \<le> p" using p0 u(2) by (simp add: field_simps)
  with zrel have z: "0 \<le> z" "z \<le> 2 * p" by linarith+
  with p_up have "\<bar>z\<bar> < 2 ^ 52" by simp
  moreover have "(2::rat) ^ 52 \<le> 2 ^ 80" by (rule power_increasing) simp_all
  ultimately have "\<not> overflows z" by (intro not_overflows) simp
  then have fm: "float_mul r k = Some z" by (simp add: float_mul_def z_def p_def)
  have sc: "scaled a b c = Inr \<lfloor>z\<rfloor>"
    using z(1) by (simp add: scaled_def td tf fm int_of_float_def)
  define X where "X = x * k"
  have X0: "0 < X" using x0 k(1) by (simp add: X_def)
  have "\<bar>p - X\<bar> = \<bar>r - x\<bar> * k"
    using k(1) by (simp add: p_def X_def abs_mult flip: left_diff_distrib)
  also have "\<dots> \<le> (x * u) * k" using rel k(1) by (intro mult_right_mono) simp_all
  finally have pX: "\<bar>p - X\<bar> \<le> X * u" by (simp add: X_def mult_ac)
  then have "p \<le> X + X * u" by linarith
  then have "p * u \<le> (X + X * u) * u" using u(1) by (intro mult_right_mono) simp_all
  also have "\<dots> = X * u + X * (u * u)" by (simp add: algebra_simps)
  also have "\<dots> \<le> X * u + X * u" using u(3) X0 by (simp add: mult_left_mono)
  finally have "p * u \<le> 2 * (X * u)" by simp
  with zrel pX have "\<bar>z - X\<bar> \<le> 3 * (X * u)" by linarith
  moreover have "X = of_int (a * c) / of_int b" by (simp add: X_def x_def k_def)
  ultimately have "\<bar>z - of_int (a * c) / of_int b\<bar> \<le> of_int (a * c) / of_int b * (3 / 2 ^ 53)"
    by (simp add: u_def)
  with sc show ?thesis by blast
qed

text \<open>
  A number within \<open>1 / h\<close> of the fraction \<open>k / h\<close> has the floor of the fraction, or one
  less when the fraction is whole.
\<close>

lemma floor_near_fraction:
  assumes "0 < h" and "\<bar>(z::rat) - of_int k / of_int h\<bar> < 1 / of_int h"
  shows "\<lfloor>z\<rfloor> = k div h \<or> (h dvd k \<and> \<lfloor>z\<rfloor> = k div h - 1)"
proof -
  define q m where "q = k div h" and "m = k mod h"
  have km: "k = q * h + m" by (simp add: q_def m_def)
  have m: "0 \<le> m" "m < h" using assms(1) by (simp_all add: m_def)
  have hr: "(0::rat) < of_int h" "(1::rat) \<le> of_int h" using assms(1) by simp_all
  have X: "(of_int k / of_int h :: rat) = of_int q + of_int m / of_int h"
    using hr(1) by (simp add: km field_simps)
  have ih: "1 / (of_int h :: rat) \<le> 1" using hr by (simp add: field_simps)
  from assms(2) have zb: "of_int k / of_int h - 1 / of_int h < z"
    "z < of_int k / of_int h + 1 / of_int h" by linarith+
  show ?thesis
  proof (cases "m = 0")
    case True
    then have "h dvd k" by (simp add: m_def dvd_eq_mod_eq_0)
    moreover from True X zb ih have near: "of_int q - 1 < z" "z < of_int q + 1" by simp_all
    have "q - 1 \<le> \<lfloor>z\<rfloor>" using near(1) by (simp add: le_floor_iff)
    moreover have "\<lfloor>z\<rfloor> < q + 1" using near(2) floor_less_iff [of z "q + 1"] by simp
    ultimately show ?thesis by (auto simp: q_def)
  next
    case False
    with m have m1: "1 \<le> m" "m \<le> h - 1" by simp_all
    from m1(2) have "(of_int m :: rat) \<le> of_int (h - 1)" by (simp only: of_int_le_iff)
    with m1(1) have "(1::rat) \<le> of_int m" "(of_int m :: rat) \<le> of_int h - 1"
      by simp_all
    then have "1 / of_int h \<le> (of_int m / of_int h :: rat)"
      "(of_int m / of_int h :: rat) \<le> 1 - 1 / of_int h"
      using hr(1) by (simp_all add: field_simps)
    with X zb have "of_int q < z" "z < of_int q + 1" by linarith+
    then have "\<lfloor>z\<rfloor> = q" by (simp add: floor_unique)
    then show ?thesis by (simp add: q_def)
  qed
qed


text \<open>
  Two different quotients of positive integers below \<open>2 ^ 25\<close> are far enough apart to
  be rounded to different floats, in the same order.
\<close>

lemma product_range:
  assumes "0 < a" "a < 2 ^ 25" "0 < b" "b < 2 ^ 25"
  shows "(of_int a * of_int b :: rat) < 2 ^ 50" and "(0::rat) < of_int a * of_int b"
proof -
  have a: "(0::rat) < of_int a" "(of_int a :: rat) < 2 ^ 25" using assms by simp_all
  have b: "(0::rat) < of_int b" "(of_int b :: rat) < 2 ^ 25" using assms by simp_all
  have "(of_int a * of_int b :: rat) < 2 ^ 25 * 2 ^ 25"
    using a b by (intro mult_strict_mono) simp_all
  then show "(of_int a * of_int b :: rat) < 2 ^ 50" by simp
  show "(0::rat) < of_int a * of_int b" using a(1) b(1) by simp
qed

lemma rounding_separates:
  assumes "0 < a" "a < 2 ^ 25" "0 < b" "b < 2 ^ 25"
    and "0 < c" "c < 2 ^ 25" "0 < d" "d < 2 ^ 25"
    and "a * d < c * b"
  shows "round_double (of_int a / of_int b) < round_double (of_int c / of_int d)"
proof -
  define x y :: rat where "x = of_int a / of_int b" and "y = of_int c / of_int d"
  define u :: rat where "u = 1 / 2 ^ 53"
  define B D :: rat where "B = of_int b" and "D = of_int d"
  have B: "0 < B" and D: "0 < D" using assms(3,7) by (simp_all add: B_def D_def)
  from true_div_pos(2) [OF assms(1-4)] have rx: "\<bar>round_double x - x\<bar> \<le> x * u"
    by (simp add: x_def u_def)
  from true_div_pos(2) [OF assms(5-8)] have ry: "\<bar>round_double y - y\<bar> \<le> y * u"
    by (simp add: y_def u_def)
  from assms(9) have "a * d + 1 \<le> c * b" by simp
  then have "(of_int (a * d + 1) :: rat) \<le> of_int (c * b)" by (simp only: of_int_le_iff)
  then have cross: "of_int a * D + 1 \<le> of_int c * B" by (simp add: B_def D_def)
  have gap: "x + 1 / (B * D) \<le> y"
  proof -
    have "x + 1 / (B * D) = (of_int a * D + 1) / (B * D)"
      using B D by (simp add: x_def B_def D_def field_simps)
    also have "\<dots> \<le> (of_int c * B) / (B * D)"
      using cross B D by (intro divide_right_mono) simp_all
    also have "\<dots> = y" using B D by (simp add: y_def B_def D_def)
    finally show ?thesis .
  qed
  have x0: "0 < x" using assms(1,3) by (simp add: x_def)
  have "0 < 1 / (B * D)" using B D by simp
  with gap x0 have xy: "x < y" by linarith
  from product_range [OF assms(5,6,3,4)] have cb: "of_int c * B < 2 ^ 50" "0 < of_int c * B"
    by (simp_all add: B_def)
  have "2 * y * u < 1 / (B * D)"
  proof -
    have "2 * y * u = (2 * (of_int c * B) * u) / (B * D)"
      using B D by (simp add: y_def D_def field_simps)
    also have "\<dots> < 1 / (B * D)"
    proof (rule divide_strict_right_mono)
      have "0 < 2 * u" by (simp add: u_def)
      with cb(1) have "(2 * u) * (of_int c * B) < (2 * u) * 2 ^ 50"
        by (intro mult_strict_left_mono)
      then have "2 * (of_int c * B) * u < 2 * 2 ^ 50 * u" by (simp add: mult_ac)
      also have "\<dots> \<le> 1" by (simp add: u_def)
      finally show "2 * (of_int c * B) * u < 1" .
      show "0 < B * D" using B D by simp
    qed
    finally show ?thesis .
  qed
  moreover have "x * u + y * u \<le> 2 * y * u"
  proof -
    have "x * u \<le> y * u" using xy by (simp add: u_def)
    then show ?thesis by linarith
  qed
  ultimately have "x * u + y * u < 1 / (B * D)" by linarith
  with gap rx ry show ?thesis
    unfolding x_def [symmetric] y_def [symmetric] by linarith
qed

lemma ratio_decides:
  assumes "0 < w" "w < 2 ^ 25" "0 < h" "h < 2 ^ 25"
    and "0 < bw" "bw < 2 ^ 25" "0 < bh" "bh < 2 ^ 25"
  shows "round_double (of_int w / of_int h) < round_double (of_int bw / of_int bh)
         \<longleftrightarrow> w * bh < bw * h"
proof (cases "w * bh < bw * h")
  case True
  with rounding_separates [OF assms(1-4) assms(5-8)] show ?thesis by simp
next
  case False
  show ?thesis
  proof (cases "w * bh = bw * h")
    case True
    then have "(of_int (w * bh) :: rat) = of_int (bw * h)" by simp
    then have "(of_int w / of_int h :: rat) = of_int bw / of_int bh"
      using assms(3,7) by (simp add: field_simps)
    with False show ?thesis by simp
  next
    case ne: False
    with False have "bw * h < w * bh" by simp
    from rounding_separates [OF assms(5-8) assms(1-4) this] False show ?thesis by simp
  qed
qed


lemma div_less_bound:
  assumes "k < n * h" and "0 < (h::int)"
  shows "k div h < n"
proof (rule ccontr)
  assume "\<not> k div h < n"
  then have "n * h \<le> (k div h) * h" using assms(2) by (intro mult_right_mono) simp_all
  moreover have "(k div h) * h + k mod h = k" by simp
  moreover have "0 \<le> k mod h" using assms(2) by simp
  ultimately show False using assms(1) by linarith
qed

lemma div_le_bound:
  assumes "k \<le> n * h" and "0 < (h::int)"
  shows "k div h \<le> n"
proof -
  from assms have "k div h \<le> (n * h) div h" by (intro zdiv_mono1) simp_all
  with assms(2) show ?thesis by simp
qed

lemma scaled_floor:
  assumes "0 < a" "a < 2 ^ 25" "0 < b" "b < 2 ^ 25" "0 < c" "c < 2 ^ 25"
  shows "\<exists>v. scaled a b c = Inr v
           \<and> (v = (a * c) div b \<or> (b dvd a * c \<and> v = (a * c) div b - 1))"
proof -
  from scaled_close [OF assms] obtain z :: rat where
    sc: "scaled a b c = Inr \<lfloor>z\<rfloor>"
    and cl: "\<bar>z - of_int (a * c) / of_int b\<bar> \<le> of_int (a * c) / of_int b * (3 / 2 ^ 53)"
    by blast
  have B: "(0::rat) < of_int b" using assms(3) by simp
  from product_range [OF assms(1,2,5,6)] have ac: "(of_int (a * c) :: rat) < 2 ^ 50"
    "(0::rat) < of_int (a * c)" by simp_all
  have "of_int (a * c) / of_int b * (3 / 2 ^ 53) = (of_int (a * c) * (3 / 2 ^ 53)) / (of_int b :: rat)"
    by simp
  also have "\<dots> < 1 / of_int b"
  proof (rule divide_strict_right_mono)
    have "(0::rat) < 3 / 2 ^ 53" by simp
    with ac(1) have "(3 / 2 ^ 53) * (of_int (a * c) :: rat) < (3 / 2 ^ 53) * 2 ^ 50"
      by (intro mult_strict_left_mono)
    also have "\<dots> \<le> 1" by simp
    finally show "(of_int (a * c) :: rat) * (3 / 2 ^ 53) < 1" by (simp add: mult_ac)
    show "(0::rat) < of_int b" by (rule B)
  qed
  finally have "\<bar>z - of_int (a * c) / of_int b\<bar> < 1 / of_int b" using cl by linarith
  from floor_near_fraction [OF assms(3) this] sc show ?thesis by blast
qed

text \<open>
  The new size for an image and a box whose dimensions are positive and below
  \<open>2 ^ 25\<close>: it fits the box; when the box is relatively wider than the image, the
  height is the box height and the width is the truncated exact width
  \<open>w * bh / h\<close>, or one less than it when it is whole; otherwise the width is the box
  width and the height is the truncated exact height \<open>h * bw / w\<close>, or one less than
  it when it is whole.
\<close>

lemma new_size_fits_box:
  assumes "0 < w" "w < 2 ^ 25" "0 < h" "h < 2 ^ 25"
    and "0 < bw" "bw < 2 ^ 25" "0 < bh" "bh < 2 ^ 25"
  shows "\<exists>nw nh. new_size (w, h) bw bh = Inr (nw, nh) \<and> nw \<le> bw \<and> nh \<le> bh
           \<and> (if (of_int w / of_int h :: rat) < of_int bw / of_int bh
               then nh = bh
                 \<and> (nw = (w * bh) div h \<or> (h dvd w * bh \<and> nw = (w * bh) div h - 1))
               else nw = bw
                 \<and> (nh = (h * bw) div w \<or> (w dvd h * bw \<and> nh = (h * bw) div w - 1)))"
proof -
  have bb: "true_div bw bh = Inr (round_double (of_int bw / of_int bh))"
    by (rule true_div_pos(1) [OF assms(5-8)])
  have im: "true_div w h = Inr (round_double (of_int w / of_int h))"
    by (rule true_div_pos(1) [OF assms(1-4)])
  have cmp: "(of_int w / of_int h :: rat) < of_int bw / of_int bh \<longleftrightarrow> w * bh < bw * h"
  proof -
    have "(of_int w / of_int h :: rat) < of_int bw / of_int bh
          \<longleftrightarrow> (of_int (w * bh) :: rat) < of_int (bw * h)"
      using assms(3,7) by (simp add: field_simps)
    then show ?thesis by (simp only: of_int_less_iff)
  qed
  show ?thesis
  proof (cases "w * bh < bw * h")
    case True
    with ratio_decides [OF assms]
    have gt: "round_double (of_int w / of_int h) < round_double (of_int bw / of_int bh)"
      by simp
    from scaled_floor [OF assms(1-4) assms(7,8)] obtain v where
      v: "scaled w h bh = Inr v" "v = (w * bh) div h \<or> (h dvd w * bh \<and> v = (w * bh) div h - 1)"
      by blast
    have ns: "new_size (w, h) bw bh = Inr (v, bh)"
      using gt by (simp add: new_size_def bb im v(1))
    have "(w * bh) div h < bw"
      using True assms(3) by (intro div_less_bound) simp_all
    with v(2) have "v \<le> bw" by auto
    with ns v(2) True cmp show ?thesis by simp
  next
    case False
    with ratio_decides [OF assms]
    have ngt: "\<not> round_double (of_int w / of_int h) < round_double (of_int bw / of_int bh)"
      by simp
    from scaled_floor [OF assms(3,4) assms(1,2) assms(5,6)] obtain v where
      v: "scaled h w bw = Inr v" "v = (h * bw) div w \<or> (w dvd h * bw \<and> v = (h * bw) div w - 1)"
      by blast
    have ns: "new_size (w, h) bw bh = Inr (bw, v)"
      using ngt by (simp add: new_size_def bb im v(1))
    from False have "h * bw \<le> bh * w" by (simp add: mult_ac)
    then have "(h * bw) div w \<le> bh"
      using assms(1) by (intro div_le_bound) simp_all
    with v(2) have "v \<le> bh" by auto
    with ns v(2) False cmp show ?thesis by simp
  qed
qed

subsection \<open>The size that \<open>resize_to_fit_bounding_box\<close> returns\<close>

text \<open>Evaluating \<open>29 / 100 * 100\<close> in floats: the product is just below 29.\<close>

lemma round_double_29_100: "round_double (29 / 100) = 5224175567749775 / 2 ^ 54"
proof -
  have "round_double (29 / 100) = of_int 5224175567749775 * pow2 (- 2 - 52)"
    by (rule round_double_eval) (simp_all add: pow2_def)
  then show ?thesis by (simp add: pow2_def)
qed

lemma round_double_product:
  "round_double (5224175567749775 / 2 ^ 54 * 100) = 8162774324609023 / 2 ^ 48"
proof -
  have "round_double (5224175567749775 / 2 ^ 54 * 100)
        = of_int 8162774324609023 * pow2 (4 - 52)"
    by (rule round_double_eval) (simp_all add: pow2_def)
  then show ?thesis by (simp add: pow2_def)
qed

lemma true_div_29_100: "true_div 29 100 = Inr (5224175567749775 / 2 ^ 54)"
proof -
  have "\<not> overflows (5224175567749775 / 2 ^ 54)"
    by (rule not_overflows) simp
  then show ?thesis by (simp add: true_div_def round_double_29_100)
qed

lemma true_div_200_100: "true_div 200 100 = Inr 2"
proof -
  have "round_double (of_int 2) = of_int 2" by (rule round_double_int) simp
  moreover have "\<not> overflows 2" by (rule not_overflows) simp
  ultimately show ?thesis by (simp add: true_div_def)
qed

lemma scaled_29_100_100: "scaled 29 100 100 = Inr 28"
proof -
  have "\<not> overflows (8162774324609023 / 2 ^ 48)" by (rule not_overflows) simp
  then have "float_mul (5224175567749775 / 2 ^ 54) 100 = Some (8162774324609023 / 2 ^ 48)"
    by (simp only: float_mul_def Let_def round_double_product if_False)
  moreover have "\<lfloor>8162774324609023 / 2 ^ 48 :: rat\<rfloor> = 28"
    by (rule floor_unique) simp_all
  moreover have "to_float 100 = Inr 100" using to_float_small [of 100] by simp
  ultimately show ?thesis
    by (simp add: scaled_def true_div_29_100 int_of_float_def)
qed

lemma new_size_29_100: "new_size (29, 100) 200 100 = Inr (28, 100)"
  by (simp add: new_size_def true_div_29_100 true_div_200_100 scaled_29_100_100)

text \<open>
  Beyond \<open>2 ^ 53\<close> the conversion of an integer to float rounds, here upwards, and the
  new height exceeds the box: the bound on the dimensions in the theorem below is
  needed.
\<close>

lemma round_half_even_tie:
  "round_half_even (of_int f + 1 / 2) = (if even f then f else f + 1)"
proof -
  have "\<lfloor>(of_int f + 1 / 2 :: rat)\<rfloor> = f" by (rule floor_unique) simp_all
  then show ?thesis by (simp add: round_half_even_def Let_def)
qed

lemma round_double_tie: "round_double 9007199254740995 = 9007199254740996"
proof -
  have "(9007199254740995 / 2 :: rat) = of_int 4503599627370497 + 1 / 2" by simp
  then have "round_half_even (9007199254740995 / 2) = 4503599627370498"
    by (simp only: round_half_even_tie) simp
  moreover have "round_double 9007199254740995
      = of_int (round_half_even (9007199254740995 / pow2 (53 - 52))) * pow2 (53 - 52)"
    by (rule round_double_normal) (simp_all add: pow2_def)
  ultimately show ?thesis by (simp add: pow2_def)
qed

lemma new_size_beyond_2_53:
  "new_size (1, 1) 9007199254740995 9007199254740995
     = Inr (9007199254740995, 9007199254740996)"
proof -
  have one: "round_double 1 = 1" using round_double_int [of 1] by simp
  have no1: "\<not> overflows 1" by (rule not_overflows) simp
  have td: "true_div 1 1 = Inr 1" "true_div 9007199254740995 9007199254740995 = Inr 1"
    using one no1 by (simp_all add: true_div_def)
  have no: "\<not> overflows 9007199254740996" by (rule not_overflows) simp
  then have tf: "to_float 9007199254740995 = Inr 9007199254740996"
    by (simp add: to_float_def round_double_tie)
  have "round_double (of_int 9007199254740996) = of_int 9007199254740996"
  proof -
    have "round_double (of_int 9007199254740996)
      = of_int 4503599627370498 * pow2 (53 - 52)"
      by (rule round_double_eval) (simp_all add: pow2_def)
    then show ?thesis by (simp add: pow2_def)
  qed
  with no have fm: "float_mul 1 9007199254740996 = Some 9007199254740996"
    by (simp add: float_mul_def)
  have "scaled 1 1 9007199254740995 = Inr 9007199254740996"
    by (simp add: scaled_def td tf fm int_of_float_def)
  then show ?thesis by (simp add: new_size_def td)
qed

lemma resize_to_fit_bounding_box_new_size:
  "new_size (int (fst (img_size img)), int (snd (img_size img))) bb_width bb_height
     = Inr (nw, nh)
   \<Longrightarrow> resize_to_fit_bounding_box pf img bb_width bb_height
       = map_sum id (\<lambda>resized. (resized, nw, nh)) (resize pf img (nw, nh))"
  by (cases "resize pf img (nw, nh)") (simp_all add: resize_to_fit_bounding_box_def)

text \<open>
  C1 (corrected). The claim: when the box is relatively wider than the image, the
  returned height is the box height and the returned width is the proportional width,
  truncated. A 29 by 100 image in a 200 by 100 box has the proportional width
  \<open>29 * 100 / 100 = 29\<close>; the code computes \<open>int(29 / 100 * 100)\<close> in floats, where
  \<open>29 / 100\<close> is rounded down and the product is \<open>28.999999999999996\<close>, and
  returns the width 28.
\<close>

theorem resize_to_fit_float_truncation:
  "(of_int 29 / of_int 100 :: rat) < of_int 200 / of_int 100
   \<and> (29 * 100) div 100 = (29 :: int)
   \<and> new_size (29, 100) 200 100 = Inr (28, 100)
   \<and> (\<forall>pf p. resize_to_fit_bounding_box pf (new_image (29, 100) p) 200 100
          = map_sum id (\<lambda>resized. (resized, 28, 100))
              (resize pf (new_image (29, 100) p) (28, 100)))"
proof -
  have "resize_to_fit_bounding_box pf (new_image (29, 100) p) 200 100
          = map_sum id (\<lambda>resized. (resized, 28, 100))
              (resize pf (new_image (29, 100) p) (28, 100))" for pf and p :: rgba
    by (rule resize_to_fit_bounding_box_new_size) (simp add: new_image_def new_size_29_100)
  then show ?thesis by (simp add: new_size_29_100)
qed

text \<open>
  C1 as amended. For an image and a box whose four dimensions are positive and below
  \<open>2 ^ 25\<close>, \<open>resize_to_fit_bounding_box\<close> passes a new size to the library's
  \<open>resize\<close> and returns it with the resized image (it raises when \<open>resize\<close> does,
  as for a new size with a zero). Both new dimensions are at most their box dimension.
  If \<open>box_width / box_height > image_width / image_height\<close>, the new height is
  exactly the box height and the new width is the proportional width
  \<open>image_width * box_height / image_height\<close> truncated, or one less than it when it is
  a whole number; otherwise the new width is exactly the box width and the new height is
  the proportional height \<open>image_height * box_width / image_width\<close> truncated, or one
  less than it when it is a whole number. So the aspect ratio is kept up to less than
  one pixel, or exactly one pixel when the exact size is whole.
\<close>

theorem resize_to_fit_bounding_box_size:
  assumes "img_size img = (nat w, nat h)"
    and "0 < w" "w < 2 ^ 25" "0 < h" "h < 2 ^ 25"
    and "0 < bw" "bw < 2 ^ 25" "0 < bh" "bh < 2 ^ 25"
  shows "\<exists>nw nh.
           resize_to_fit_bounding_box pf img bw bh
             = map_sum id (\<lambda>resized. (resized, nw, nh)) (resize pf img (nw, nh))
           \<and> new_size (w, h) bw bh = Inr (nw, nh)
           \<and> nw \<le> bw \<and> nh \<le> bh
           \<and> (if (of_int w / of_int h :: rat) < of_int bw / of_int bh
               then nh = bh
                 \<and> (nw = (w * bh) div h \<or> (h dvd w * bh \<and> nw = (w * bh) div h - 1))
               else nw = bw
                 \<and> (nh = (h * bw) div w \<or> (w dvd h * bw \<and> nh = (h * bw) div w - 1)))"
proof -
  from new_size_fits_box [OF assms(2-9)] obtain nw nh where
    ns: "new_size (w, h) bw bh = Inr (nw, nh)" and fits: "nw \<le> bw" "nh \<le> bh"
    and rule: "if (of_int w / of_int h :: rat) < of_int bw / of_int bh
               then nh = bh
                 \<and> (nw = (w * bh) div h \<or> (h dvd w * bh \<and> nw = (w * bh) div h - 1))
               else nw = bw
                 \<and> (nh = (h * bw) div w \<or> (w dvd h * bw \<and> nh = (h * bw) div w - 1))"
    by blast
  from assms(1,2,4) ns
  have "new_size (int (fst (img_size img)), int (snd (img_size img))) bw bh = Inr (nw, nh)"
    by simp
  then have "resize_to_fit_bounding_box pf img bw bh
             = map_sum id (\<lambda>resized. (resized, nw, nh)) (resize pf img (nw, nh))"
    by (rule resize_to_fit_bounding_box_new_size)
  with ns fits rule show ?thesis by blast
qed

theorem resize_to_fit_bounding_box_size_witness:
  "new_size (30, 20) 50 50 = Inr (50, 33)
   \<and> (\<forall>pf p. resize_to_fit_bounding_box pf (new_image (30, 20) p) 50 50
          = map_sum id (\<lambda>resized. (resized, 50, 33))
              (resize pf (new_image (30, 20) p) (50, 33)))"
proof -
  have *: "new_size (30, 20) 50 50 = Inr (50, 33)
     \<and> resize_to_fit_bounding_box pf (new_image (30, 20) p) 50 50
          = map_sum id (\<lambda>resized. (resized, 50, 33))
              (resize pf (new_image (30, 20) p) (50, 33))" for pf and p :: rgba
  proof -
    have sz: "img_size (new_image (30, 20) p) = (nat 30, nat 20)"
      by (simp add: new_image_def)
    from resize_to_fit_bounding_box_size [OF sz, of 50 50 pf]
    obtain nw nh where
      "resize_to_fit_bounding_box pf (new_image (30, 20) p) 50 50
         = map_sum id (\<lambda>resized. (resized, nw, nh)) (resize pf (new_image (30, 20) p) (nw, nh))"
      "new_size (30, 20) 50 50 = Inr (nw, nh)" "nw = 50"
      "nh = 33 \<or> nh = 32 \<and> (30::int) dvd 1000"
      by auto
    then show ?thesis by auto
  qed
  then show ?thesis by blast
qed

subsection \<open>Running the program again\<close>










subsection \<open>The example run\<close>


lemma example_detect_bbox: "detect_bbox example_logo = Inr (Some (10, 10, 30, 30))"
proof -
  have "getpixel example_logo (3, 3) = Inr \<lparr>red = 0, green = 0, blue = 0, alpha = 0\<rparr>"
    by (simp add: getpixel_def example_logo_def)
  moreover have "getbbox (\<lambda>p. alpha p \<noteq> 0) example_logo = Some (10, 10, 30, 30)"
    by code_simp
  ultimately show ?thesis by (simp add: detect_bbox_def)
qed








subsection \<open>The framed example: margins and a foreground colour\<close>

lemma framed_parse_args: "parse_args framed_cli = Inr framed_args"
  by code_simp

lemma framed_fields:
  "margin framed_args = [5, 10, 5, 11]" "width framed_args = 62" "height framed_args = 42"
  "background framed_args = None" "color framed_args = Some (Channels [255, 171, 3])"
  "\<not> greyscale framed_args"
  by (simp_all add: framed_args_def)

lemma example_probe:
  "getpixel example_logo (3, 3) = Inr \<lparr>red = 0, green = 0, blue = 0, alpha = 0\<rparr>"
  by (simp add: getpixel_def example_logo_def)

lemma true_div_41_32: "true_div 41 32 = Inr (41 / 32)"
proof -
  have "round_double (41 / 32) = of_int (41 * 2 ^ 47) * pow2 (0 - 52)"
    by (rule round_double_eval) (simp_all add: pow2_def)
  then have rd: "round_double (41 / 32) = 41 / 32" by (simp add: pow2_def)
  have no: "\<not> overflows (41 / 32)" by (rule not_overflows) simp
  show ?thesis by (simp add: true_div_def rd no)
qed

text \<open>The cropped logo, 20 by 20, in the box of 41 by 32: the box is relatively wider.\<close>

lemma new_size_20_20_41_32: "new_size (20, 20) 41 32 = Inr (32, 32)"
proof -
  have one: "round_double 1 = 1" using round_double_int [of 1] by simp
  have r32: "round_double 32 = 32" using round_double_int [of 32] by simp
  have no: "\<not> overflows 1" "\<not> overflows 32" by (rule not_overflows, simp)+
  have td: "true_div 20 20 = Inr 1" using one no by (simp add: true_div_def)
  have "scaled 20 20 32 = Inr 32"
    using r32 no
    by (simp add: scaled_def td to_float_def float_mul_def int_of_float_def)
  then show ?thesis by (simp add: new_size_def td true_div_41_32)
qed

lemma framed_resize:
  "resize_to_fit_bounding_box example_platform (crop example_logo (Some (10, 10, 30, 30))) 41 32
     = Inr (\<lparr>img_size = (32, 32),
              pixels = (\<lambda>(x, y). pixels (crop example_logo (Some (10, 10, 30, 30)))
                           (x * 20 div 32, y * 20 div 32))\<rparr>, 32, 32)"
proof -
  have sz: "img_size (crop example_logo (Some (10, 10, 30, 30))) = (20, 20)"
    by (simp add: crop_def)
  show ?thesis
    by (simp add: resize_to_fit_bounding_box_def sz new_size_20_20_41_32 example_platform_def)
qed

lemma framed_resized_alpha:
  "alpha (pixels \<lparr>img_size = (32, 32),
              pixels = (\<lambda>(x, y). pixels (crop example_logo (Some (10, 10, 30, 30)))
                           (x * 20 div 32, y * 20 div 32))\<rparr> (0, 0)) = 255"
  "alpha (pixels \<lparr>img_size = (32, 32),
              pixels = (\<lambda>(x, y). pixels (crop example_logo (Some (10, 10, 30, 30)))
                           (x * 20 div 32, y * 20 div 32))\<rparr> (31, 31)) = 255"
  by (simp_all add: crop_def example_logo_def)

lemma framed_process_image:
  "\<exists>final. process_image example_platform framed_args example_logo = Inr final"
  by (simp add: process_image_def example_detect_bbox framed_args_def framed_resize
      example_probe background_color_def given_def recolour_channels Let_def)

text \<open>
  On the example platform, a foreground of 32 by 32 pixels pasted at \<open>(15, 5)\<close> on the
  canvas of 62 by 42 occupies the columns 15 to 46 and the rows 5 to 36.
\<close>

lemma framed_pixels:
  assumes "img_size fg = (32, 32)"
    and "alpha (pixels fg (0, 0)) = 255" and "alpha (pixels fg (31, 31)) = 255"
    and "im = alpha_composite example_platform
                (new_image (62, 42) \<lparr>red = 0, green = 0, blue = 0, alpha = 0\<rparr>)
                (paste example_platform
                   (new_image (62, 42) \<lparr>red = 128, green = 128, blue = 128, alpha = 0\<rparr>)
                   fg (15, 5))"
  shows "pixels im (15, 5) = pixels fg (0, 0)" "pixels im (46, 36) = pixels fg (31, 31)"
    "alpha (pixels im (14, 5)) = 0" "alpha (pixels im (15, 4)) = 0"
    "alpha (pixels im (47, 36)) = 0" "alpha (pixels im (46, 37)) = 0"
  using assms(1-3) by (simp_all add: assms(4) example_platform_def new_image_def Let_def)

text \<open>
  C3 on the framed example: the free space is 9 pixels wide and 0 pixels high, so the
  foreground is pasted at \<open>(11 + 9 div 2, 5 + 0 div 2) = (15, 5)\<close>.
\<close>

theorem foreground_pasted_at_center_offset_witness:
  "\<exists>resized fg im.
     process_image example_platform framed_args example_logo = Inr (RGBA im)
     \<and> im = alpha_composite example_platform
              (new_image (62, 42) \<lparr>red = 0, green = 0, blue = 0, alpha = 0\<rparr>)
              (paste example_platform
                 (new_image (62, 42) \<lparr>red = 128, green = 128, blue = 128, alpha = 0\<rparr>)
                 fg (15, 5))
     \<and> resize_to_fit_bounding_box example_platform
           (crop example_logo (Some (10, 10, 30, 30))) 41 32 = Inr (resized, 32, 32)
     \<and> recolour (color framed_args) resized = Inr fg
     \<and> alpha (pixels im (15, 5)) = 255 \<and> alpha (pixels im (46, 36)) = 255
     \<and> alpha (pixels im (14, 5)) = 0 \<and> alpha (pixels im (15, 4)) = 0
     \<and> alpha (pixels im (47, 36)) = 0 \<and> alpha (pixels im (46, 37)) = 0"
proof -
  from framed_process_image obtain final where
    f: "process_image example_platform framed_args example_logo = Inr final" by blast
  from foreground_pasted_at_center_offset [OF f]
  obtain m_top m_right m_bottom m_left bounding_box resized rw rh probe bgc fg where
    m: "margin framed_args = [m_top, m_right, m_bottom, m_left]"
    and bb: "detect_bbox example_logo = Inr bounding_box"
    and r: "resize_to_fit_bounding_box example_platform (crop example_logo bounding_box)
               (width framed_args - m_left - m_right) (height framed_args - m_top - m_bottom)
             = Inr (resized, rw, rh)"
    and p: "getpixel example_logo (3, 3) = Inr probe"
    and b: "background_color (background framed_args) probe = Inr bgc"
    and c: "recolour (color framed_args) resized = Inr fg"
    and fin: "final =
             (let canvas = (nat (width framed_args), nat (height framed_args));
                  logo_layer =
                    paste example_platform
                      (new_image canvas \<lparr>red = 128, green = 128, blue = 128, alpha = 0\<rparr>)
                      fg (center_offset (width framed_args) rw m_left m_right,
                          center_offset (height framed_args) rh m_top m_bottom);
                  composite = alpha_composite example_platform (new_image canvas bgc) logo_layer
              in if greyscale framed_args then LA (convert_la example_platform composite)
                 else RGBA composite)"
    by blast
  define im where "im = alpha_composite example_platform
              (new_image (62, 42) \<lparr>red = 0, green = 0, blue = 0, alpha = 0\<rparr>)
              (paste example_platform
                 (new_image (62, 42) \<lparr>red = 128, green = 128, blue = 128, alpha = 0\<rparr>)
                 fg (15, 5))"
  from m have ms: "m_top = 5" "m_right = 10" "m_bottom = 5" "m_left = 11"
    by (simp_all add: framed_fields)
  from bb have bx: "bounding_box = Some (10, 10, 30, 30)" by (simp add: example_detect_bbox)
  from r have r': "resize_to_fit_bounding_box example_platform
           (crop example_logo (Some (10, 10, 30, 30))) 41 32 = Inr (resized, rw, rh)"
    by (simp add: ms bx framed_fields)
  then have sz: "rw = 32" "rh = 32"
    and rs: "resized = \<lparr>img_size = (32, 32),
              pixels = (\<lambda>(x, y). pixels (crop example_logo (Some (10, 10, 30, 30)))
                           (x * 20 div 32, y * 20 div 32))\<rparr>"
    by (simp_all add: framed_resize)
  from p b have bg: "bgc = \<lparr>red = 0, green = 0, blue = 0, alpha = 0\<rparr>"
    by (simp add: example_probe framed_fields background_color_def given_def)
  have final: "final = RGBA im"
    by (simp add: fin ms sz bg framed_fields center_offset_def Let_def im_def)
  from c have fg: "fg = \<lparr>img_size = img_size resized,
            pixels = (\<lambda>xy. \<lparr>red = clip8 255, green = clip8 171, blue = clip8 3,
                             alpha = alpha (pixels resized xy)\<rparr>)\<rparr>"
    by (simp add: framed_fields recolour_channels)
  have fsz: "img_size fg = (32, 32)" by (simp add: fg rs)
  have fa: "alpha (pixels fg (0, 0)) = 255" "alpha (pixels fg (31, 31)) = 255"
    using framed_resized_alpha by (simp_all add: fg rs)
  note px = framed_pixels [OF fsz fa im_def]
  from f final r' sz c px fa im_def show ?thesis
    by (rule_tac x = resized in exI, rule_tac x = fg in exI, rule_tac x = im in exI) simp
qed

text \<open>
  C8 on the framed example: every pixel of the pasted foreground has the colour
  \<open>ffab03\<close>, and the pixels of the picture at the corners of the pasted foreground are
  opaque pixels of that colour.
\<close>

theorem pasted_foreground_is_recoloured_witness:
  "\<exists>resized fg im.
     parse_args framed_cli = Inr framed_args
     \<and> process_image example_platform framed_args example_logo = Inr (RGBA im)
     \<and> resize_to_fit_bounding_box example_platform
           (crop example_logo (Some (10, 10, 30, 30))) 41 32 = Inr (resized, 32, 32)
     \<and> im = alpha_composite example_platform
              (new_image (62, 42) \<lparr>red = 0, green = 0, blue = 0, alpha = 0\<rparr>)
              (paste example_platform
                 (new_image (62, 42) \<lparr>red = 128, green = 128, blue = 128, alpha = 0\<rparr>)
                 fg (15, 5))
     \<and> img_size fg = img_size resized
     \<and> (\<forall>xy. red (pixels fg xy) = 255 \<and> green (pixels fg xy) = 171
            \<and> blue (pixels fg xy) = 3
            \<and> alpha (pixels fg xy) = alpha (pixels resized xy))
     \<and> pixels im (15, 5) = \<lparr>red = 255, green = 171, blue = 3, alpha = 255\<rparr>
     \<and> pixels im (46, 36) = \<lparr>red = 255, green = 171, blue = 3, alpha = 255\<rparr>"
proof -
  from framed_process_image obtain final where
    f: "process_image example_platform framed_args example_logo = Inr final" by blast
  have gv: "given (color framed_args)" by (simp add: framed_fields given_def)
  from pasted_foreground_is_recoloured [OF framed_parse_args gv f]
  obtain r g b m_top m_right m_bottom m_left bounding_box resized rw rh probe bgc fg where
    col: "color framed_args = Some (Channels [r, g, b])"
    and m: "margin framed_args = [m_top, m_right, m_bottom, m_left]"
    and bb: "detect_bbox example_logo = Inr bounding_box"
    and rz: "resize_to_fit_bounding_box example_platform (crop example_logo bounding_box)
               (width framed_args - m_left - m_right) (height framed_args - m_top - m_bottom)
             = Inr (resized, rw, rh)"
    and p: "getpixel example_logo (3, 3) = Inr probe"
    and b: "background_color (background framed_args) probe = Inr bgc"
    and fsz: "img_size fg = img_size resized"
    and px: "\<forall>xy. uint (red (pixels fg xy)) = r \<and> uint (green (pixels fg xy)) = g
                \<and> uint (blue (pixels fg xy)) = b
                \<and> alpha (pixels fg xy) = alpha (pixels resized xy)"
    and fin: "final =
             (let canvas = (nat (width framed_args), nat (height framed_args));
                  logo_layer =
                    paste example_platform
                      (new_image canvas \<lparr>red = 128, green = 128, blue = 128, alpha = 0\<rparr>)
                      fg (paste_position framed_args (m_top, m_right, m_bottom, m_left) rw rh);
                  composite = alpha_composite example_platform (new_image canvas bgc) logo_layer
              in if greyscale framed_args then LA (convert_la example_platform composite)
                 else RGBA composite)"
    by blast
  define im where "im = alpha_composite example_platform
              (new_image (62, 42) \<lparr>red = 0, green = 0, blue = 0, alpha = 0\<rparr>)
              (paste example_platform
                 (new_image (62, 42) \<lparr>red = 128, green = 128, blue = 128, alpha = 0\<rparr>)
                 fg (15, 5))"
  from col have rgb: "r = 255" "g = 171" "b = 3" by (simp_all add: framed_fields)
  from m have ms: "m_top = 5" "m_right = 10" "m_bottom = 5" "m_left = 11"
    by (simp_all add: framed_fields)
  from bb have bx: "bounding_box = Some (10, 10, 30, 30)" by (simp add: example_detect_bbox)
  from rz have r': "resize_to_fit_bounding_box example_platform
           (crop example_logo (Some (10, 10, 30, 30))) 41 32 = Inr (resized, rw, rh)"
    by (simp add: ms bx framed_fields)
  then have sz: "rw = 32" "rh = 32"
    and rs: "resized = \<lparr>img_size = (32, 32),
              pixels = (\<lambda>(x, y). pixels (crop example_logo (Some (10, 10, 30, 30)))
                           (x * 20 div 32, y * 20 div 32))\<rparr>"
    by (simp_all add: framed_resize)
  have chan: "red (pixels fg xy) = 255 \<and> green (pixels fg xy) = 171
            \<and> blue (pixels fg xy) = 3
            \<and> alpha (pixels fg xy) = alpha (pixels resized xy)" for xy
  proof -
    from spec [OF px, of xy] rgb have "uint (red (pixels fg xy)) = uint (255 :: byte)"
      "uint (green (pixels fg xy)) = uint (171 :: byte)"
      "uint (blue (pixels fg xy)) = uint (3 :: byte)"
      "alpha (pixels fg xy) = alpha (pixels resized xy)"
      by simp_all
    then show ?thesis by (simp only: word_uint_eq_iff [symmetric])
  qed
  have fa: "alpha (pixels fg (0, 0)) = 255" "alpha (pixels fg (31, 31)) = 255"
    using framed_resized_alpha chan by (simp_all add: rs)
  have fsz': "img_size fg = (32, 32)" by (simp add: fsz rs)
  note ip = framed_pixels [OF fsz' fa im_def]
  have corner: "pixels im (15, 5) = \<lparr>red = 255, green = 171, blue = 3, alpha = 255\<rparr>"
    "pixels im (46, 36) = \<lparr>red = 255, green = 171, blue = 3, alpha = 255\<rparr>"
    using chan [of "(0, 0)"] chan [of "(31, 31)"] fa
    by (simp_all add: ip(1,2) rgba.equality)
  from p b have bg: "bgc = \<lparr>red = 0, green = 0, blue = 0, alpha = 0\<rparr>"
    by (simp add: example_probe framed_fields background_color_def given_def)
  have final: "final = RGBA im"
    by (simp add: fin ms sz bg framed_fields paste_position_def Let_def im_def)
  from f final r' sz fsz chan corner framed_parse_args im_def show ?thesis
    by (rule_tac x = resized in exI, rule_tac x = fg in exI, rule_tac x = im in exI) simp
qed

end
